theory Spec2Isabelle
  imports Main "HOL-Library.AList" "HOL-Library.Multiset"
begin

section \<open>Data model (core/models)\<close>

text \<open>
  The enumerations of \<^verbatim>\<open>core/models/enums.py\<close>. The members of the four enums share
  names in the source (PENDING, FAILED, ...), so each constructor carries the enum as a
  prefix.
\<close>

datatype JobStatus =
  JOB_PENDING | JOB_PROCESSING | JOB_AWAITING_INPUT | JOB_COMPLETED
  | JOB_FAILED | JOB_CANCELLED | JOB_REVERTING | JOB_REVERTED

datatype StepStatus =
  STEP_PENDING | STEP_RUNNING | STEP_AWAITING_INPUT | STEP_COMPLETED
  | STEP_FAILED | STEP_SKIPPED | STEP_REVERTED

datatype ArtifactType =
  FILE_CREATE | FILE_MODIFY | FILE_DELETE | FILE_MOVE | FRONTMATTER_UPDATE
  | EXTERNAL_API_CREATE | EXTERNAL_API_MODIFY | METADATA

datatype ArtifactStatus =
  ART_PENDING | ART_CREATED | ART_REVERTED | ART_FAILED | ART_ORPHANED | ART_IRREVERSIBLE

datatype ReversibilityLevel =
  FULLY_REVERSIBLE | PARTIALLY_REVERSIBLE | IRREVERSIBLE | MANUAL_REVERT

text \<open>
  Exceptions are values. \<open>CircularDependency\<close> is the \<^verbatim>\<open>ValueError\<close> that
  \<^verbatim>\<open>get_execution_order\<close> raises with the list of remaining nodes; the other
  constructors carry the message of the Python exception of the same name.
\<close>

datatype error =
  ValueError string
  | CircularDependency "string list"
  | KeyError string
  | FileExistsError string
  | FileNotFoundError string
  | TypeError string
  | JSONDecodeError string
  | ProcessorException string

text \<open>
  \<^verbatim>\<open>datetime.utcnow()\<close> reads the clock; every method that calls it takes the reading as
  its argument \<open>now\<close>. A JSON-like dictionary \<^verbatim>\<open>dict[str, Any]\<close> is an association list
  from keys to opaque values, written as strings; \<^verbatim>\<open>d[k] = v\<close> is \<^const>\<open>AList.update\<close>
  (it replaces the value of a key in place and appends a new key at the end) and
  \<^verbatim>\<open>d.update(e)\<close> stores the entries of \<open>e\<close> one after the other.
\<close>

type_synonym datetime = nat
type_synonym json_dict = "(string \<times> string) list"

record Artifact =
  a_id :: string
  a_job_id :: string
  a_step_name :: string
  a_artifact_type :: ArtifactType
  a_target :: string
  a_before_state :: "string option"
  a_after_state :: "string option"
  a_metadata :: json_dict
  a_status :: ArtifactStatus
  a_reversibility :: ReversibilityLevel
  a_created_at :: datetime
  a_reverted_at :: "datetime option"
  a_error_message :: "string option"

definition dict_update :: "json_dict \<Rightarrow> json_dict \<Rightarrow> json_dict" where
  "dict_update d e = foldl (\<lambda>m kv. AList.update (fst kv) (snd kv) m) d e"

definition a_mark_created :: "Artifact \<Rightarrow> Artifact" where
  "a_mark_created a = a\<lparr>a_status := ART_CREATED\<rparr>"

definition a_mark_irreversible :: "string option \<Rightarrow> Artifact \<Rightarrow> Artifact" where
  "a_mark_irreversible reason a =
     (let a1 = a\<lparr>a_status := ART_IRREVERSIBLE, a_reversibility := IRREVERSIBLE\<rparr>
      in case reason of
           None \<Rightarrow> a1
         | Some r \<Rightarrow> if r \<noteq> [] then a1\<lparr>a_metadata := AList.update ''irreversible_reason'' r (a_metadata a1)\<rparr>
                     else a1)"


record StepResult =
  r_id :: string
  r_job_id :: string
  r_step_name :: string
  r_status :: StepStatus
  r_started_at :: "datetime option"
  r_completed_at :: "datetime option"
  r_artifacts :: "Artifact list"
  r_output_data :: json_dict
  r_error_message :: "string option"
  r_error_traceback :: "string option"
  r_awaiting_input_since :: "datetime option"
  r_user_input :: "json_dict option"
  r_reverted_at :: "datetime option"
  r_revert_error :: "string option"

text \<open>\<^verbatim>\<open>StepResult(job_id=..., step_name=...)\<close>: every other field at its default; the
  identifier is the fresh \<^verbatim>\<open>uuid4\<close> the caller supplies.\<close>

definition new_StepResult :: "string \<Rightarrow> string \<Rightarrow> string \<Rightarrow> StepResult" where
  "new_StepResult rid jid step_name =
     \<lparr>r_id = rid, r_job_id = jid, r_step_name = step_name, r_status = STEP_PENDING,
      r_started_at = None, r_completed_at = None, r_artifacts = [], r_output_data = [],
      r_error_message = None, r_error_traceback = None, r_awaiting_input_since = None,
      r_user_input = None, r_reverted_at = None, r_revert_error = None\<rparr>"

definition r_start :: "datetime \<Rightarrow> StepResult \<Rightarrow> StepResult" where
  "r_start now r = r\<lparr>r_status := STEP_RUNNING, r_started_at := Some now\<rparr>"

text \<open>\<^verbatim>\<open>if output:\<close> is false for \<^verbatim>\<open>None\<close> and for the empty dictionary.\<close>

definition r_complete :: "datetime \<Rightarrow> json_dict option \<Rightarrow> StepResult \<Rightarrow> StepResult" where
  "r_complete now output r =
     (let r1 = r\<lparr>r_status := STEP_COMPLETED, r_completed_at := Some now\<rparr>
      in case output of
           None \<Rightarrow> r1
         | Some out \<Rightarrow> if out \<noteq> [] then r1\<lparr>r_output_data := out\<rparr> else r1)"

definition r_fail :: "datetime \<Rightarrow> string \<Rightarrow> string option \<Rightarrow> StepResult \<Rightarrow> StepResult" where
  "r_fail now err tb r =
     r\<lparr>r_status := STEP_FAILED, r_completed_at := Some now,
       r_error_message := Some err, r_error_traceback := tb\<rparr>"

definition r_skip :: "datetime \<Rightarrow> string option \<Rightarrow> StepResult \<Rightarrow> StepResult" where
  "r_skip now reason r =
     (let r1 = r\<lparr>r_status := STEP_SKIPPED, r_completed_at := Some now\<rparr>
      in case reason of
           None \<Rightarrow> r1
         | Some s \<Rightarrow> if s \<noteq> [] then r1\<lparr>r_output_data := AList.update ''skip_reason'' s (r_output_data r1)\<rparr>
                     else r1)"

definition r_await_input :: "datetime \<Rightarrow> StepResult \<Rightarrow> StepResult" where
  "r_await_input now r = r\<lparr>r_status := STEP_AWAITING_INPUT, r_awaiting_input_since := Some now\<rparr>"

definition r_provide_input :: "json_dict \<Rightarrow> StepResult \<Rightarrow> StepResult" where
  "r_provide_input inp r = r\<lparr>r_user_input := Some inp, r_status := STEP_RUNNING\<rparr>"



record Job =
  j_id :: string
  j_source_type :: string
  j_source_path :: "string option"
  j_source_url :: "string option"
  j_source_name :: string
  j_status :: JobStatus
  j_current_step :: "string option"
  j_next_step :: "string option"
  j_data :: json_dict
  j_history :: "StepResult list"
  j_config :: json_dict
  j_tags :: "string list"
  j_created_at :: datetime
  j_started_at :: "datetime option"
  j_completed_at :: "datetime option"
  j_updated_at :: datetime
  j_error_message :: "string option"
  j_priority :: int

text \<open>\<^verbatim>\<open>Job(source_type=..., source_name=...)\<close> with every other field at its default.\<close>

definition new_Job :: "string \<Rightarrow> string \<Rightarrow> string \<Rightarrow> datetime \<Rightarrow> Job" where
  "new_Job jid source_type source_name now =
     \<lparr>j_id = jid, j_source_type = source_type, j_source_path = None, j_source_url = None,
      j_source_name = source_name, j_status = JOB_PENDING, j_current_step = None,
      j_next_step = None, j_data = [], j_history = [], j_config = [],
      j_tags = [], j_created_at = now, j_started_at = None, j_completed_at = None,
      j_updated_at = now, j_error_message = None, j_priority = 0\<rparr>"

subsection \<open>Job state transitions (core/models/job.py)\<close>

definition start_processing :: "datetime \<Rightarrow> string \<Rightarrow> Job \<Rightarrow> Job" where
  "start_processing now step_name j =
     (let j1 = j\<lparr>j_status := JOB_PROCESSING, j_current_step := Some step_name\<rparr>;
          j2 = (if j_started_at j1 = None then j1\<lparr>j_started_at := Some now\<rparr> else j1)
      in j2\<lparr>j_updated_at := now\<rparr>)"

definition await_input :: "datetime \<Rightarrow> string \<Rightarrow> Job \<Rightarrow> Job" where
  "await_input now step_name j =
     j\<lparr>j_status := JOB_AWAITING_INPUT, j_current_step := Some step_name, j_updated_at := now\<rparr>"

definition complete :: "datetime \<Rightarrow> Job \<Rightarrow> Job" where
  "complete now j =
     j\<lparr>j_status := JOB_COMPLETED, j_current_step := None,
       j_completed_at := Some now, j_updated_at := now\<rparr>"

definition fail :: "datetime \<Rightarrow> string \<Rightarrow> Job \<Rightarrow> Job" where
  "fail now err j =
     j\<lparr>j_status := JOB_FAILED, j_error_message := Some err,
       j_completed_at := Some now, j_updated_at := now\<rparr>"

definition cancel :: "datetime \<Rightarrow> Job \<Rightarrow> Job" where
  "cancel now j = j\<lparr>j_status := JOB_CANCELLED, j_completed_at := Some now, j_updated_at := now\<rparr>"

definition start_revert :: "datetime \<Rightarrow> Job \<Rightarrow> Job" where
  "start_revert now j = j\<lparr>j_status := JOB_REVERTING, j_updated_at := now\<rparr>"

definition complete_revert :: "datetime \<Rightarrow> string option \<Rightarrow> Job \<Rightarrow> Job" where
  "complete_revert now to_step j =
     j\<lparr>j_status := (if to_step = None then JOB_REVERTED else JOB_PENDING),
       j_current_step := to_step, j_updated_at := now\<rparr>"

subsection \<open>History management and data access\<close>

definition add_step_result :: "datetime \<Rightarrow> StepResult \<Rightarrow> Job \<Rightarrow> Job" where
  "add_step_result now r j = j\<lparr>j_history := j_history j @ [r], j_updated_at := now\<rparr>"


definition get_completed_steps :: "Job \<Rightarrow> string list" where
  "get_completed_steps j = map r_step_name (filter (\<lambda>r. r_status r = STEP_COMPLETED) (j_history j))"

definition has_completed_step :: "Job \<Rightarrow> string \<Rightarrow> bool" where
  "has_completed_step j step_name \<longleftrightarrow> step_name \<in> set (get_completed_steps j)"

definition set_data :: "datetime \<Rightarrow> string \<Rightarrow> string \<Rightarrow> Job \<Rightarrow> Job" where
  "set_data now k v j = j\<lparr>j_data := AList.update k v (j_data j), j_updated_at := now\<rparr>"

definition merge_data :: "datetime \<Rightarrow> json_dict \<Rightarrow> Job \<Rightarrow> Job" where
  "merge_data now d j = j\<lparr>j_data := dict_update (j_data j) d, j_updated_at := now\<rparr>"

text \<open>
  The job states reachable through the state-transition methods, starting from a job as
  its constructor leaves it (status \<^verbatim>\<open>pending\<close>, no current step).
\<close>

inductive reachable :: "Job \<Rightarrow> bool" where
  reach_new: "reachable (new_Job jid source_type source_name now)"
| reach_start_processing: "reachable j \<Longrightarrow> reachable (start_processing now step_name j)"
| reach_await_input: "reachable j \<Longrightarrow> reachable (await_input now step_name j)"
| reach_complete: "reachable j \<Longrightarrow> reachable (complete now j)"
| reach_fail: "reachable j \<Longrightarrow> reachable (fail now err j)"
| reach_cancel: "reachable j \<Longrightarrow> reachable (cancel now j)"
| reach_start_revert: "reachable j \<Longrightarrow> reachable (start_revert now j)"
| reach_complete_revert: "reachable j \<Longrightarrow> reachable (complete_revert now to_step j)"

section \<open>Processors and the registry (core/plugins)\<close>

text \<open>
  A processor is a plugin: a black box with metadata. Its methods are fields holding
  functions. \<^verbatim>\<open>should_process\<close> may raise, so it returns a sum. What
  \<^verbatim>\<open>process(job, ctx)\<close> does is a run: the calls it makes on the execution context, in
  order, the data bag of the job as it leaves it, and whether it returns a step result or
  raises. \<^verbatim>\<open>revert\<close> likewise leaves a data bag and returns or raises.
\<close>

datatype ctx_op =
  CreateFile string string string
  | ModifyFile string string string
  | DeleteFile string
  | MoveFile string string
  | UpdateFrontmatter string json_dict
  | RecordApiCall string string json_dict json_dict bool "string option"
  | Commit
  | Rollback

datatype outcome = Return StepResult | Raise error

record proc_run =
  pr_ops :: "ctx_op list"
  pr_data :: json_dict
  pr_outcome :: outcome

record Processor =
  p_name :: string
  p_display_name :: string
  p_description :: string
  p_requires :: "string list"
  p_config_schema :: json_dict
  p_default_config :: json_dict
  p_has_ui :: bool
  p_requires_input :: string
  p_can_skip :: bool
  p_auto_revert_on_error :: bool
  p_should_process :: "Job \<Rightarrow> error + bool"
  p_requires_user_input :: "Job \<Rightarrow> bool"
  p_process :: "Job \<Rightarrow> proc_run"
  p_revert :: "Job \<Rightarrow> StepResult \<Rightarrow> json_dict \<times> (error + bool)"

record StepDefinition =
  d_name :: string
  d_display_name :: string
  d_description :: string
  d_requires :: "string list"
  d_config_schema :: json_dict
  d_default_config :: json_dict
  d_has_ui :: bool
  d_requires_input :: string
  d_can_skip :: bool
  d_auto_revert_on_error :: bool

definition to_definition :: "Processor \<Rightarrow> StepDefinition" where
  "to_definition p =
     \<lparr>d_name = p_name p, d_display_name = p_display_name p, d_description = p_description p,
      d_requires = p_requires p, d_config_schema = p_config_schema p,
      d_default_config = p_default_config p, d_has_ui = p_has_ui p,
      d_requires_input = p_requires_input p, d_can_skip = p_can_skip p,
      d_auto_revert_on_error = p_auto_revert_on_error p\<rparr>"

text \<open>
  The registry's two dictionaries keep insertion order (iteration over the registry is
  iteration over \<^verbatim>\<open>_processors.values()\<close>), so each is an association list. The
  message of the first \<^verbatim>\<open>ValueError\<close> leaves the class name out.
\<close>

record ProcessorRegistry =
  reg_processors :: "(string \<times> Processor) list"
  reg_definitions :: "(string \<times> StepDefinition) list"

definition empty_registry :: ProcessorRegistry where
  "empty_registry = \<lparr>reg_processors = [], reg_definitions = []\<rparr>"

definition get :: "ProcessorRegistry \<Rightarrow> string \<Rightarrow> Processor option" where
  "get reg name = map_of (reg_processors reg) name"

definition get_definition :: "ProcessorRegistry \<Rightarrow> string \<Rightarrow> StepDefinition option" where
  "get_definition reg name = map_of (reg_definitions reg) name"

definition has :: "ProcessorRegistry \<Rightarrow> string \<Rightarrow> bool" where
  "has reg name \<longleftrightarrow> name \<in> set (map fst (reg_processors reg))"


definition get_all :: "ProcessorRegistry \<Rightarrow> Processor list" where
  "get_all reg = map snd (reg_processors reg)"

text \<open>\<^verbatim>\<open>register\<close> returns what the call did (raised, or returned) and the registry
  after the call.\<close>

definition register :: "ProcessorRegistry \<Rightarrow> Processor \<Rightarrow> (error + unit) \<times> ProcessorRegistry" where
  "register reg p =
     (if p_name p = [] then (Inl (ValueError ''Processor has no name''), reg)
      else if p_name p \<in> set (map fst (reg_processors reg))
        then (Inl (ValueError (''Processor '' @ [CHR 0x27] @ p_name p @ [CHR 0x27]
                            @ '' is already registered'')), reg)
      else (Inr (),
            reg\<lparr>reg_processors := AList.update (p_name p) p (reg_processors reg),
                reg_definitions := AList.update (p_name p) (to_definition p) (reg_definitions reg)\<rparr>))"

definition unregister :: "ProcessorRegistry \<Rightarrow> string \<Rightarrow> Processor option \<times> ProcessorRegistry" where
  "unregister reg name =
     (map_of (reg_processors reg) name,
      reg\<lparr>reg_processors := AList.delete name (reg_processors reg),
          reg_definitions := AList.delete name (reg_definitions reg)\<rparr>)"

definition get_dependencies :: "ProcessorRegistry \<Rightarrow> string \<Rightarrow> string list" where
  "get_dependencies reg name = (case get reg name of Some p \<Rightarrow> p_requires p | None \<Rightarrow> [])"

subsection \<open>Dependency resolution: \<^verbatim>\<open>get_execution_order\<close>\<close>

text \<open>
  \<^verbatim>\<open>in_degree\<close> and \<^verbatim>\<open>graph\<close> are dictionaries keyed by the names in
  \<^verbatim>\<open>processors\<close>. Reading a key that is absent raises \<^verbatim>\<open>KeyError\<close>.
\<close>

type_synonym in_degree = "(string \<times> int) list"
type_synonym graph = "(string \<times> string list) list"

definition dict_get :: "(string \<times> 'v) list \<Rightarrow> string \<Rightarrow> error + 'v" where
  "dict_get d k = (case map_of d k of None \<Rightarrow> Inl (KeyError k) | Some v \<Rightarrow> Inr v)"

text \<open>The comprehension \<^verbatim>\<open>{p: v for p in processors}\<close>.\<close>

definition dict_init :: "'v \<Rightarrow> string list \<Rightarrow> (string \<times> 'v) list" where
  "dict_init v ps = foldl (\<lambda>d p. AList.update p v d) [] ps"

text \<open>
  The body of the inner loop of the graph construction, for one dependency \<open>dep\<close> of
  \<open>proc\<close>: \<^verbatim>\<open>if dep in processors: graph[dep].append(proc); in_degree[proc] += 1\<close>.
\<close>

definition add_edge ::
  "string list \<Rightarrow> string \<Rightarrow> in_degree \<times> graph \<Rightarrow> string \<Rightarrow> error + in_degree \<times> graph" where
  "add_edge processors proc st dep =
     (case st of (ind, g) \<Rightarrow>
        if dep \<in> set processors then
          (case dict_get g dep of
             Inl e \<Rightarrow> Inl e
           | Inr l \<Rightarrow>
               (case dict_get ind proc of
                  Inl e \<Rightarrow> Inl e
                | Inr n \<Rightarrow> Inr (AList.update proc (n + 1) ind, AList.update dep (l @ [proc]) g)))
        else Inr (ind, g))"

fun add_edges ::
  "string list \<Rightarrow> string \<Rightarrow> string list \<Rightarrow> in_degree \<times> graph \<Rightarrow> error + in_degree \<times> graph" where
  "add_edges processors proc [] st = Inr st"
| "add_edges processors proc (dep # deps) st =
     (case add_edge processors proc st dep of
        Inl e \<Rightarrow> Inl e
      | Inr st' \<Rightarrow> add_edges processors proc deps st')"

fun build_graph ::
  "ProcessorRegistry \<Rightarrow> string list \<Rightarrow> string list \<Rightarrow> in_degree \<times> graph
     \<Rightarrow> error + in_degree \<times> graph" where
  "build_graph reg processors [] st = Inr st"
| "build_graph reg processors (proc # procs) st =
     (case add_edges processors proc (get_dependencies reg proc) st of
        Inl e \<Rightarrow> Inl e
      | Inr st' \<Rightarrow> build_graph reg processors procs st')"

text \<open>\<^verbatim>\<open>queue = [p for p in processors if in_degree[p] == 0]\<close>\<close>

fun initial_queue :: "in_degree \<Rightarrow> string list \<Rightarrow> error + string list" where
  "initial_queue ind [] = Inr []"
| "initial_queue ind (p # ps) =
     (case dict_get ind p of
        Inl e \<Rightarrow> Inl e
      | Inr n \<Rightarrow>
          (case initial_queue ind ps of
             Inl e \<Rightarrow> Inl e
           | Inr q \<Rightarrow> Inr (if n = 0 then p # q else q)))"

text \<open>
  The inner loop of Kahn's algorithm over \<^verbatim>\<open>graph[node]\<close>:
  \<^verbatim>\<open>in_degree[dependent] -= 1; if in_degree[dependent] == 0: queue.append(dependent)\<close>.
\<close>

fun relax :: "string list \<Rightarrow> in_degree \<Rightarrow> string list \<Rightarrow> error + in_degree \<times> string list" where
  "relax [] ind queue = Inr (ind, queue)"
| "relax (dependent # ds) ind queue =
     (case dict_get ind dependent of
        Inl e \<Rightarrow> Inl e
      | Inr n \<Rightarrow>
          relax ds (AList.update dependent (n - 1) ind)
            (if n - 1 = 0 then queue @ [dependent] else queue))"

text \<open>The number of entries of \<^verbatim>\<open>in_degree\<close> that are still positive: with the length
  of the queue it bounds the iterations left in the \<^verbatim>\<open>while queue:\<close> loop.\<close>

definition positives :: "in_degree \<Rightarrow> nat" where
  "positives ind = length (filter (\<lambda>kv. 0 < snd kv) ind)"

lemma positives_update_same:
  "map_of ind k = Some n \<Longrightarrow> (0 < n \<longleftrightarrow> 0 < m) \<Longrightarrow> positives (AList.update k m ind) = positives ind"
  by (induction ind) (auto simp: positives_def)

lemma positives_update_drop:
  "map_of ind k = Some n \<Longrightarrow> 0 < n \<Longrightarrow> \<not> 0 < m
     \<Longrightarrow> Suc (positives (AList.update k m ind)) = positives ind"
  by (induction ind) (auto simp: positives_def)

lemma relax_measure:
  "relax ds ind queue = Inr (ind', queue')
     \<Longrightarrow> length queue' + positives ind' = length queue + positives ind"
proof (induction ds arbitrary: ind queue)
  case Nil
  then show ?case by simp
next
  case (Cons d ds)
  from Cons.prems obtain n where n: "map_of ind d = Some n"
    by (auto simp: dict_get_def split: option.splits)
  with Cons.prems have r: "relax ds (AList.update d (n - 1) ind)
      (if n - 1 = 0 then queue @ [d] else queue) = Inr (ind', queue')"
    by (simp add: dict_get_def)
  show ?case
  proof (cases "n - 1 = 0")
    case True
    then have "Suc (positives (AList.update d (n - 1) ind)) = positives ind"
      using n by (intro positives_update_drop) auto
    with Cons.IH [OF r] True show ?thesis by simp
  next
    case False
    then have "positives (AList.update d (n - 1) ind) = positives ind"
      using n by (intro positives_update_same) auto
    with Cons.IH [OF r] False show ?thesis by simp
  qed
qed

text \<open>The \<^verbatim>\<open>while queue:\<close> loop: \<^verbatim>\<open>node = queue.pop(0); result.append(node)\<close>, then
  the inner loop.\<close>

function kahn :: "graph \<Rightarrow> in_degree \<Rightarrow> string list \<Rightarrow> string list \<Rightarrow> error + string list" where
  "kahn g ind [] result = Inr result"
| "kahn g ind (node # queue) result =
     (case dict_get g node of
        Inl e \<Rightarrow> Inl e
      | Inr dependents \<Rightarrow>
          (case relax dependents ind queue of
             Inl e \<Rightarrow> Inl e
           | Inr st \<Rightarrow> kahn g (fst st) (snd st) (result @ [node])))"
  by pat_completeness auto
termination
proof (relation "measure (\<lambda>(g, ind, queue, result). length queue + positives ind)")
  show "wf (measure (\<lambda>(g, ind, queue, result). length queue + positives ind))"
    by simp
next
  fix g ind node queue result dependents st
  assume "relax dependents ind queue = Inr st"
  then have "relax dependents ind queue = Inr (fst st, snd st)"
    by simp
  from relax_measure [OF this]
  show "((g, fst st, snd st, result @ [node]), (g, ind, node # queue, result))
          \<in> measure (\<lambda>(g, ind, queue, result). length queue + positives ind)"
    by simp
qed

definition get_execution_order :: "ProcessorRegistry \<Rightarrow> string list \<Rightarrow> error + string list" where
  "get_execution_order reg processors =
     (case build_graph reg processors processors
             (dict_init 0 processors, dict_init [] processors) of
        Inl e \<Rightarrow> Inl e
      | Inr (ind, g) \<Rightarrow>
          (case initial_queue ind processors of
             Inl e \<Rightarrow> Inl e
           | Inr queue \<Rightarrow>
               (case kahn g ind queue [] of
                  Inl e \<Rightarrow> Inl e
                | Inr result \<Rightarrow>
                    if length result \<noteq> length processors
                    then Inl (CircularDependency (filter (\<lambda>p. p \<notin> set result) processors))
                    else Inr result)))"

section \<open>The world outside the process\<close>

text \<open>
  The file system holds regular files: a map from a path to the text of the file. Paths are
  strings in the form \<^verbatim>\<open>str(Path(p))\<close> gives them; \<open>path_str\<close> is that conversion for
  paths already free of redundant separators, where only the empty path changes (to
  \<^verbatim>\<open>"."\<close>). Directories are not tracked, so \<^verbatim>\<open>mkdir(parents=True)\<close> has no effect
  here. File contents are text: the operations are taken at the encoding they were written
  with.

  \<^verbatim>\<open>os.rename\<close> onto an existing file depends on the platform (Python's documentation of
  \<^verbatim>\<open>os.rename\<close>): on POSIX the file is replaced silently, on Windows
  \<^verbatim>\<open>FileExistsError\<close> is raised.

  The YAML and JSON libraries are parameters of the world. \<^verbatim>\<open>yaml.safe_load\<close> fails
  (\<open>None\<close>) or returns a mapping, a falsy document, or some other document.
\<close>

datatype platform = Posix | Windows

datatype yaml_value = Mapping json_dict | Falsy | Other

record library =
  yaml_safe_load :: "string \<Rightarrow> yaml_value option"
  yaml_dump :: "json_dict \<Rightarrow> string"
  json_dumps :: "json_dict \<Rightarrow> string"
  json_loads :: "string \<Rightarrow> json_dict option"

type_synonym filesystem = "string \<rightharpoonup> string"

record world =
  w_fs :: filesystem
  w_platform :: platform
  w_lib :: library
  w_artifacts :: "Artifact list"
  w_jobs :: "Job list"
  w_uuids :: nat

definition path_str :: "string \<Rightarrow> string" where
  "path_str p = (if p = [] then ''.'' else p)"

definition os_rename :: "platform \<Rightarrow> filesystem \<Rightarrow> string \<Rightarrow> string \<Rightarrow> error + filesystem" where
  "os_rename pf fs src dst =
     (case fs src of
        None \<Rightarrow> Inl (FileNotFoundError src)
      | Some content \<Rightarrow>
          if src = dst then Inr fs
          else if dst \<in> dom fs \<and> pf = Windows then Inl (FileExistsError dst)
          else Inr ((fs(src := None))(dst \<mapsto> content)))"

text \<open>\<^verbatim>\<open>uuid4()\<close>: a fresh identifier; the world counts the identifiers handed out.\<close>

definition uuid4 :: "world \<Rightarrow> string \<times> world" where
  "uuid4 w = (''uuid-'' @ replicate (w_uuids w) (CHR ''i''), w\<lparr>w_uuids := Suc (w_uuids w)\<rparr>)"

subsection \<open>Artifact store and job store (core/storage)\<close>

text \<open>\<^verbatim>\<open>ArtifactStore.save\<close>: insert, or on a conflict of the id update the status, the
  reversibility, the error message and the revert time of the stored row.\<close>

fun store_save :: "Artifact \<Rightarrow> Artifact list \<Rightarrow> Artifact list" where
  "store_save a [] = [a]"
| "store_save a (row # rows) =
     (if a_id row = a_id a
      then row\<lparr>a_status := a_status a, a_reversibility := a_reversibility a,
                a_error_message := a_error_message a, a_reverted_at := a_reverted_at a\<rparr> # rows
      else row # store_save a rows)"

definition artifact_store_save :: "Artifact \<Rightarrow> world \<Rightarrow> world" where
  "artifact_store_save a w = w\<lparr>w_artifacts := store_save a (w_artifacts w)\<rparr>"


text \<open>\<^verbatim>\<open>JobStore.save\<close>: insert, or on a conflict of the id update every column but
  \<^verbatim>\<open>created_at\<close>.\<close>

fun jobs_save :: "Job \<Rightarrow> Job list \<Rightarrow> Job list" where
  "jobs_save j [] = [j]"
| "jobs_save j (row # rows) =
     (if j_id row = j_id j then j\<lparr>j_created_at := j_created_at row\<rparr> # rows
      else row # jobs_save j rows)"

definition job_store_save :: "Job \<Rightarrow> world \<Rightarrow> world" where
  "job_store_save j w = w\<lparr>w_jobs := jobs_save j (w_jobs w)\<rparr>"

section \<open>Execution context (core/engine/context.py)\<close>

record ExecutionContext =
  c_job_id :: string
  c_step_name :: string
  c_pending_artifacts :: "Artifact list"
  c_committed :: bool

definition new_ExecutionContext :: "Job \<Rightarrow> string \<Rightarrow> ExecutionContext" where
  "new_ExecutionContext job step_name =
     \<lparr>c_job_id = j_id job, c_step_name = step_name, c_pending_artifacts = [],
      c_committed = False\<rparr>"

text \<open>\<^verbatim>\<open>Artifact(job_id=..., step_name=..., artifact_type=..., target=..., ...)\<close> with the
  defaults of the model for the fields the caller leaves out.\<close>

definition new_Artifact ::
  "string \<Rightarrow> datetime \<Rightarrow> ExecutionContext \<Rightarrow> ArtifactType \<Rightarrow> string \<Rightarrow> string option
     \<Rightarrow> string option \<Rightarrow> json_dict \<Rightarrow> ReversibilityLevel \<Rightarrow> Artifact" where
  "new_Artifact aid now c ty target before_state after_state metadata reversibility =
     \<lparr>a_id = aid, a_job_id = c_job_id c, a_step_name = c_step_name c, a_artifact_type = ty,
      a_target = target, a_before_state = before_state, a_after_state = after_state,
      a_metadata = metadata,
      a_status = ART_PENDING, a_reversibility = reversibility, a_created_at = now,
      a_reverted_at = None, a_error_message = None\<rparr>"

definition record_artifact :: "Artifact \<Rightarrow> ExecutionContext \<Rightarrow> ExecutionContext" where
  "record_artifact a c = c\<lparr>c_pending_artifacts := c_pending_artifacts c @ [a]\<rparr>"

subsection \<open>File operations\<close>

definition create_file ::
  "datetime \<Rightarrow> string \<Rightarrow> string \<Rightarrow> string \<Rightarrow> world \<times> ExecutionContext
     \<Rightarrow> error + world \<times> ExecutionContext" where
  "create_file now path0 content encoding st =
     (case st of (w, c) \<Rightarrow>
        let path = path_str path0 in
        if path \<in> dom (w_fs w) then Inl (FileExistsError (''File already exists: '' @ path))
        else
          (let (aid, w1) = uuid4 w;
               artifact = new_Artifact aid now c FILE_CREATE path None (Some content)
                            [(''encoding'', encoding)] FULLY_REVERSIBLE;
               w2 = w1\<lparr>w_fs := (w_fs w1)(path \<mapsto> content)\<rparr>
           in Inr (w2, record_artifact (a_mark_created artifact) c)))"

definition modify_file ::
  "datetime \<Rightarrow> string \<Rightarrow> string \<Rightarrow> string \<Rightarrow> world \<times> ExecutionContext
     \<Rightarrow> error + world \<times> ExecutionContext" where
  "modify_file now path0 new_content encoding st =
     (case st of (w, c) \<Rightarrow>
        let path = path_str path0 in
        case w_fs w path of
          None \<Rightarrow> Inl (FileNotFoundError (''File not found: '' @ path))
        | Some before_content \<Rightarrow>
            (let (aid, w1) = uuid4 w;
                 artifact = new_Artifact aid now c FILE_MODIFY path (Some before_content)
                              (Some new_content) [(''encoding'', encoding)] FULLY_REVERSIBLE;
                 w2 = w1\<lparr>w_fs := (w_fs w1)(path \<mapsto> new_content)\<rparr>
             in Inr (w2, record_artifact (a_mark_created artifact) c)))"

definition delete_file ::
  "datetime \<Rightarrow> string \<Rightarrow> world \<times> ExecutionContext \<Rightarrow> error + world \<times> ExecutionContext" where
  "delete_file now path0 st =
     (case st of (w, c) \<Rightarrow>
        let path = path_str path0 in
        case w_fs w path of
          None \<Rightarrow> Inl (FileNotFoundError (''File not found: '' @ path))
        | Some before_content \<Rightarrow>
            (let (aid, w1) = uuid4 w;
                 artifact = new_Artifact aid now c FILE_DELETE path (Some before_content) None
                              [(''original_path'', path)] FULLY_REVERSIBLE;
                 w2 = w1\<lparr>w_fs := (w_fs w1)(path := None)\<rparr>
             in Inr (w2, record_artifact (a_mark_created artifact) c)))"

definition move_file ::
  "datetime \<Rightarrow> string \<Rightarrow> string \<Rightarrow> world \<times> ExecutionContext
     \<Rightarrow> error + world \<times> ExecutionContext" where
  "move_file now source0 dest0 st =
     (case st of (w, c) \<Rightarrow>
        let source = path_str source0; dest = path_str dest0 in
        if source \<notin> dom (w_fs w) then Inl (FileNotFoundError (''Source file not found: '' @ source))
        else if dest \<in> dom (w_fs w)
          then Inl (FileExistsError (''Destination already exists: '' @ dest))
        else
          (let (aid, w1) = uuid4 w;
               artifact = new_Artifact aid now c FILE_MOVE dest (Some source) (Some dest) []
                            FULLY_REVERSIBLE
           in case os_rename (w_platform w1) (w_fs w1) source dest of
                Inl e \<Rightarrow> Inl e
              | Inr fs' \<Rightarrow>
                  Inr (w1\<lparr>w_fs := fs'\<rparr>, record_artifact (a_mark_created artifact) c)))"

subsection \<open>Frontmatter operations\<close>

definition is_space :: "char \<Rightarrow> bool" where
  "is_space ch \<longleftrightarrow> ch \<in> set [CHR '' '', CHR 0x09, CHR 0x0A, CHR 0x0B, CHR 0x0C, CHR 0x0D,
                                CHR 0x1C, CHR 0x1D, CHR 0x1E, CHR 0x1F]"

definition strip :: "string \<Rightarrow> string" where
  "strip s = rev (dropWhile is_space (rev (dropWhile is_space s)))"

text \<open>\<^verbatim>\<open>content.split("\n")\<close> and \<^verbatim>\<open>"\n".join(lines)\<close>.\<close>

fun split_lines :: "string \<Rightarrow> string list" where
  "split_lines [] = [[]]"
| "split_lines (ch # s) =
     (if ch = CHR 0x0A then [] # split_lines s
      else (case split_lines s of l # ls \<Rightarrow> (ch # l) # ls | [] \<Rightarrow> [[ch]]))"

fun join_lines :: "string list \<Rightarrow> string" where
  "join_lines [] = []"
| "join_lines [l] = l"
| "join_lines (l # ls) = l @ [CHR 0x0A] @ join_lines ls"

text \<open>The index of the closing delimiter: the first line after line 0 that strips to
  \<^verbatim>\<open>---\<close>.\<close>

fun find_delimiter :: "nat \<Rightarrow> string list \<Rightarrow> nat option" where
  "find_delimiter i [] = None"
| "find_delimiter i (l # ls) = (if strip l = ''---'' then Some i else find_delimiter (Suc i) ls)"

definition parse_frontmatter :: "library \<Rightarrow> string \<Rightarrow> yaml_value \<times> string" where
  "parse_frontmatter lib content =
     (let lines = split_lines content in
      case lines of
        [] \<Rightarrow> (Mapping [], content)
      | first # others \<Rightarrow>
          if strip first \<noteq> ''---'' then (Mapping [], content)
          else
            (case find_delimiter 1 others of
               None \<Rightarrow> (Mapping [], content)
             | Some end_idx \<Rightarrow>
                 (case yaml_safe_load lib (join_lines (take (end_idx - 1) others)) of
                    None \<Rightarrow> (Mapping [], content)
                  | Some loaded \<Rightarrow>
                      (case loaded of
                         Mapping d \<Rightarrow> Mapping d
                       | Falsy \<Rightarrow> Mapping []
                       | Other \<Rightarrow> Other,
                       join_lines (drop (end_idx + 1) lines)))))"

definition build_frontmatter :: "library \<Rightarrow> json_dict \<Rightarrow> string" where
  "build_frontmatter lib frontmatter =
     (if frontmatter = [] then []
      else ''---'' @ [CHR 0x0A] @ yaml_dump lib frontmatter @ ''---'' @ [CHR 0x0A])"

text \<open>\<^verbatim>\<open>update_frontmatter\<close> opens the file without testing that it exists;
  \<^verbatim>\<open>{**before_frontmatter, **updates}\<close> raises \<^verbatim>\<open>TypeError\<close> when the frontmatter is
  no mapping.\<close>

definition update_frontmatter ::
  "datetime \<Rightarrow> string \<Rightarrow> json_dict \<Rightarrow> world \<times> ExecutionContext
     \<Rightarrow> error + world \<times> ExecutionContext" where
  "update_frontmatter now path0 updates st =
     (case st of (w, c) \<Rightarrow>
        let path = path_str path0 in
        case w_fs w path of
          None \<Rightarrow> Inl (FileNotFoundError path)
        | Some content \<Rightarrow>
            (case parse_frontmatter (w_lib w) content of
               (Mapping before_frontmatter, body) \<Rightarrow>
                 (let after_frontmatter = dict_update before_frontmatter updates;
                      new_content = build_frontmatter (w_lib w) after_frontmatter @ body;
                      (aid, w1) = uuid4 w;
                      artifact = new_Artifact aid now c FRONTMATTER_UPDATE path
                                   (Some (json_dumps (w_lib w) before_frontmatter))
                                   (Some (json_dumps (w_lib w) after_frontmatter))
                                   [(''updates'', json_dumps (w_lib w) updates)] FULLY_REVERSIBLE;
                      w2 = w1\<lparr>w_fs := (w_fs w1)(path \<mapsto> new_content)\<rparr>
                  in Inr (w2, record_artifact (a_mark_created artifact) c))
             | (_, body) \<Rightarrow> Inl (TypeError ''not a mapping'')))"

subsection \<open>External API operations\<close>

definition record_api_call ::
  "datetime \<Rightarrow> string \<Rightarrow> string \<Rightarrow> json_dict \<Rightarrow> json_dict \<Rightarrow> bool \<Rightarrow> string option
     \<Rightarrow> world \<times> ExecutionContext \<Rightarrow> error + world \<times> ExecutionContext" where
  "record_api_call now service action request_data response_data reversible reverse_action st =
     (case st of (w, c) \<Rightarrow>
        let (aid, w1) = uuid4 w;
            artifact = new_Artifact aid now c EXTERNAL_API_CREATE (service @ '':'' @ action) None
                         (Some (json_dumps (w_lib w) response_data))
                         [(''service'', service), (''action'', action),
                          (''request'', json_dumps (w_lib w) request_data),
                          (''response'', json_dumps (w_lib w) response_data),
                          (''reverse_action'', case reverse_action of None \<Rightarrow> ''null'' | Some r \<Rightarrow> r)]
                         (if reversible then PARTIALLY_REVERSIBLE else IRREVERSIBLE);
            marked =
              (if \<not> reversible
               then a_mark_irreversible
                      (Some (''External API call to '' @ service @ '':'' @ action
                             @ '' cannot be automatically reversed'')) artifact
               else a_mark_created artifact)
        in Inr (w1, record_artifact marked c))"

subsection \<open>Transaction management\<close>

text \<open>
  \<^verbatim>\<open>_revert_artifact\<close>. \<^verbatim>\<open>if artifact.before_state and artifact.after_state\<close> asks for
  both to be present and non-empty; \<^verbatim>\<open>is not None\<close> only for presence.
\<close>

definition truthy :: "string option \<Rightarrow> bool" where
  "truthy s \<longleftrightarrow> (case s of None \<Rightarrow> False | Some x \<Rightarrow> x \<noteq> [])"

definition revert_artifact :: "Artifact \<Rightarrow> world \<Rightarrow> error + world" where
  "revert_artifact artifact w =
     (if a_artifact_type artifact = FILE_CREATE then
        (let path = path_str (a_target artifact) in
         if path \<in> dom (w_fs w) then Inr (w\<lparr>w_fs := (w_fs w)(path := None)\<rparr>) else Inr w)
      else if a_artifact_type artifact = FILE_MODIFY then
        (let path = path_str (a_target artifact) in
         case a_before_state artifact of
           Some before_state \<Rightarrow> Inr (w\<lparr>w_fs := (w_fs w)(path \<mapsto> before_state)\<rparr>)
         | None \<Rightarrow> Inr w)
      else if a_artifact_type artifact = FILE_DELETE then
        (let path = path_str (a_target artifact) in
         case a_before_state artifact of
           Some before_state \<Rightarrow> Inr (w\<lparr>w_fs := (w_fs w)(path \<mapsto> before_state)\<rparr>)
         | None \<Rightarrow> Inr w)
      else if a_artifact_type artifact = FILE_MOVE then
        (if truthy (a_before_state artifact) \<and> truthy (a_after_state artifact) then
           (let dest = path_str (the (a_after_state artifact));
                source = path_str (the (a_before_state artifact)) in
            if dest \<in> dom (w_fs w) then
              (case os_rename (w_platform w) (w_fs w) dest source of
                 Inl e \<Rightarrow> Inl e
               | Inr fs' \<Rightarrow> Inr (w\<lparr>w_fs := fs'\<rparr>))
            else Inr w)
         else Inr w)
      else if a_artifact_type artifact = FRONTMATTER_UPDATE then
        (let path = path_str (a_target artifact) in
         if truthy (a_before_state artifact) \<and> path \<in> dom (w_fs w) then
           (case json_loads (w_lib w) (the (a_before_state artifact)) of
              None \<Rightarrow> Inl (JSONDecodeError (the (a_before_state artifact)))
            | Some before_fm \<Rightarrow>
                (let content = the (w_fs w path);
                     body = snd (parse_frontmatter (w_lib w) content);
                     new_content = build_frontmatter (w_lib w) before_fm @ body
                 in Inr (w\<lparr>w_fs := (w_fs w)(path \<mapsto> new_content)\<rparr>)))
         else Inr w)
      else Inr w)"

text \<open>\<^verbatim>\<open>commit\<close>: a no-op after the first call; otherwise every pending artifact is saved.\<close>

definition commit :: "world \<times> ExecutionContext \<Rightarrow> world \<times> ExecutionContext" where
  "commit st =
     (case st of (w, c) \<Rightarrow>
        if c_committed c then (w, c)
        else (foldl (\<lambda>w a. artifact_store_save a w) w (c_pending_artifacts c),
              c\<lparr>c_committed := True\<rparr>))"

text \<open>The loop of \<^verbatim>\<open>rollback\<close> over \<^verbatim>\<open>reversed(self._pending_artifacts)\<close>: an
  artifact whose revert raises is logged and the loop goes on. The argument is the list
  already reversed.\<close>

fun rollback_loop :: "Artifact list \<Rightarrow> world \<Rightarrow> world" where
  "rollback_loop [] w = w"
| "rollback_loop (artifact # rest) w =
     (case revert_artifact artifact w of
        Inl e \<Rightarrow> rollback_loop rest w
      | Inr w' \<Rightarrow> rollback_loop rest w')"

definition rollback :: "world \<times> ExecutionContext \<Rightarrow> world \<times> ExecutionContext" where
  "rollback st =
     (case st of (w, c) \<Rightarrow>
        if c_committed c then (w, c)
        else (rollback_loop (rev (c_pending_artifacts c)) w, c\<lparr>c_pending_artifacts := []\<rparr>))"

text \<open>One call of the processor on the context.\<close>

fun ctx_call ::
  "datetime \<Rightarrow> ctx_op \<Rightarrow> world \<times> ExecutionContext \<Rightarrow> error + world \<times> ExecutionContext" where
  "ctx_call now (CreateFile path content encoding) st = create_file now path content encoding st"
| "ctx_call now (ModifyFile path content encoding) st = modify_file now path content encoding st"
| "ctx_call now (DeleteFile path) st = delete_file now path st"
| "ctx_call now (MoveFile source dest) st = move_file now source dest st"
| "ctx_call now (UpdateFrontmatter path updates) st = update_frontmatter now path updates st"
| "ctx_call now (RecordApiCall service action req resp reversible reverse_action) st =
     record_api_call now service action req resp reversible reverse_action st"
| "ctx_call now Commit st = Inr (commit st)"
| "ctx_call now Rollback st = Inr (rollback st)"

text \<open>
  The calls of a run, in order, up to the first that raises. The result is the state the
  calls leave behind and the exception, if one was raised.
\<close>

fun ctx_calls ::
  "datetime \<Rightarrow> ctx_op list \<Rightarrow> world \<times> ExecutionContext
     \<Rightarrow> error option \<times> world \<times> ExecutionContext" where
  "ctx_calls now [] st = (None, st)"
| "ctx_calls now (op # ops) st =
     (case ctx_call now op st of
        Inl e \<Rightarrow> (Some e, st)
      | Inr st' \<Rightarrow> ctx_calls now ops st')"

text \<open>\<^verbatim>\<open>__aexit__\<close>: with an exception, roll back; without, commit unless committed.\<close>

definition aexit :: "error option \<Rightarrow> world \<times> ExecutionContext \<Rightarrow> world \<times> ExecutionContext" where
  "aexit exc st = (case exc of Some e \<Rightarrow> rollback st | None \<Rightarrow> commit st)"

section \<open>Specification vocabulary for the execution order\<close>

text \<open>The entries of \<^verbatim>\<open>p.requires\<close> that are in \<open>names\<close>, as the graph construction
  sees them.\<close>

definition requires_in :: "ProcessorRegistry \<Rightarrow> string list \<Rightarrow> string \<Rightarrow> string list" where
  "requires_in reg names p = filter (\<lambda>d. d \<in> set names) (get_dependencies reg p)"

text \<open>The \<^verbatim>\<open>requires\<close> relation restricted to \<open>names\<close>: \<open>(p, d)\<close> when \<open>p\<close> requires
  \<open>d\<close> and both are in \<open>names\<close>.\<close>

definition requires_rel :: "ProcessorRegistry \<Rightarrow> string list \<Rightarrow> (string \<times> string) set" where
  "requires_rel reg names =
     {(p, d). p \<in> set names \<and> d \<in> set names \<and> d \<in> set (get_dependencies reg p)}"

text \<open>\<open>appears_after xs p d\<close>: \<open>p\<close> occurs in \<open>xs\<close> behind the first occurrence of
  \<open>d\<close>.\<close>

fun appears_after :: "'a list \<Rightarrow> 'a \<Rightarrow> 'a \<Rightarrow> bool" where
  "appears_after [] p d \<longleftrightarrow> False"
| "appears_after (x # xs) p d \<longleftrightarrow> (if x = d then p \<in> set xs else appears_after xs p d)"

text \<open>What \<^verbatim>\<open>graph[d]\<close> holds once the processors \<open>procs\<close> have been through the
  outer loop of the graph construction.\<close>

definition edges_to :: "ProcessorRegistry \<Rightarrow> string list \<Rightarrow> string list \<Rightarrow> string \<Rightarrow> string list" where
  "edges_to reg names procs d =
     concat (map (\<lambda>p. map (\<lambda>x. p) (filter (\<lambda>x. x = d) (requires_in reg names p))) procs)"

text \<open>The number of in-list requirements of \<open>p\<close>, counted with repetitions, that
  \<open>result\<close> does not hold yet.\<close>

definition unmet :: "ProcessorRegistry \<Rightarrow> string list \<Rightarrow> string list \<Rightarrow> string \<Rightarrow> nat" where
  "unmet reg names result p = length (filter (\<lambda>d. d \<notin> set result) (requires_in reg names p))"

text \<open>
  The invariant of the \<^verbatim>\<open>while queue:\<close> loop for a duplicate-free \<open>names\<close>: nothing
  is emitted or queued twice; \<^verbatim>\<open>in_degree[p]\<close> counts the unmet requirements of
  \<open>p\<close>; a processor is emitted or queued exactly when it has none; and each emitted
  processor comes behind its requirements.
\<close>

definition kahn_inv ::
  "ProcessorRegistry \<Rightarrow> string list \<Rightarrow> in_degree \<Rightarrow> string list \<Rightarrow> string list \<Rightarrow> bool" where
  "kahn_inv reg names ind queue result \<longleftrightarrow>
     distinct (result @ queue) \<and> set (result @ queue) \<subseteq> set names
     \<and> (\<forall>p. map_of ind p = (if p \<in> set names then Some (int (unmet reg names result p)) else None))
     \<and> (\<forall>p\<in>set names. p \<in> set (result @ queue) \<longleftrightarrow> unmet reg names result p = 0)
     \<and> (\<forall>i<length result. set (requires_in reg names (result ! i)) \<subseteq> set (take i result))"

section \<open>Router (core/engine/router.py)\<close>

text \<open>\<^verbatim>\<open>_get_applicable_processors\<close>: a processor whose \<^verbatim>\<open>should_process\<close> raises is
  logged and left out.\<close>

definition get_applicable_processors :: "ProcessorRegistry \<Rightarrow> Job \<Rightarrow> string list" where
  "get_applicable_processors reg job =
     map p_name (filter (\<lambda>p. p_should_process p job = Inr True) (get_all reg))"

text \<open>The test of the loop body of \<^verbatim>\<open>get_next_step\<close> under which it returns
  \<^verbatim>\<open>step_name\<close>.\<close>

definition is_next_step :: "ProcessorRegistry \<Rightarrow> string list \<Rightarrow> string \<Rightarrow> bool" where
  "is_next_step reg completed_steps step_name \<longleftrightarrow>
     step_name \<notin> set completed_steps \<and>
     (case get reg step_name of
        None \<Rightarrow> False
      | Some processor \<Rightarrow> list_all (\<lambda>dep. dep \<in> set completed_steps) (p_requires processor))"

text \<open>\<^verbatim>\<open>get_next_step\<close> catches \<^verbatim>\<open>ValueError\<close> (and its subclasses) only; any other
  exception of \<^verbatim>\<open>get_execution_order\<close> reaches the caller.\<close>

fun is_ValueError :: "error \<Rightarrow> bool" where
  "is_ValueError (ValueError m) \<longleftrightarrow> True"
| "is_ValueError (CircularDependency remaining) \<longleftrightarrow> True"
| "is_ValueError (JSONDecodeError m) \<longleftrightarrow> True"
| "is_ValueError e \<longleftrightarrow> False"

definition get_next_step :: "ProcessorRegistry \<Rightarrow> Job \<Rightarrow> error + string option" where
  "get_next_step reg job =
     (let completed_steps = get_completed_steps job;
          applicable = get_applicable_processors reg job
      in if applicable = [] then Inr None
         else case get_execution_order reg applicable of
                Inl e \<Rightarrow> if is_ValueError e then Inr None else Inl e
              | Inr ordered \<Rightarrow> Inr (find (is_next_step reg completed_steps) ordered))"

text \<open>
  The reasons of \<^verbatim>\<open>can_run_step\<close> are f-strings. \<open>py_repr_list\<close> writes a list of
  names as Python prints it when no name needs an escape.
\<close>

definition py_repr_list :: "string list \<Rightarrow> string" where
  "py_repr_list xs =
     ''['' @ concat (map (\<lambda>(i, x). (if i = 0 then [] else '', '') @ [CHR 0x27] @ x @ [CHR 0x27])
                        (enumerate 0 xs)) @ '']''"

definition can_run_step :: "ProcessorRegistry \<Rightarrow> Job \<Rightarrow> string \<Rightarrow> bool \<times> string" where
  "can_run_step reg job step_name =
     (case get reg step_name of
        None \<Rightarrow> (False, ''Processor '' @ [CHR 0x27] @ step_name @ [CHR 0x27] @ '' not found'')
      | Some processor \<Rightarrow>
          if has_completed_step job step_name
          then (False, ''Step '' @ [CHR 0x27] @ step_name @ [CHR 0x27] @ '' already completed'')
          else
            (let completed = get_completed_steps job;
                 missing_deps = filter (\<lambda>dep. dep \<notin> set completed) (p_requires processor)
             in if missing_deps \<noteq> []
                then (False, ''Missing dependencies: '' @ py_repr_list missing_deps)
                else (True, [])))"

section \<open>Executor (core/engine/executor.py)\<close>

text \<open>\<^verbatim>\<open>str(e)\<close>, the message of an exception.\<close>

fun str_of_error :: "error \<Rightarrow> string" where
  "str_of_error (ValueError m) = m"
| "str_of_error (CircularDependency remaining) =
     ''Circular dependency detected involving: '' @ py_repr_list remaining"
| "str_of_error (KeyError k) = [CHR 0x27] @ k @ [CHR 0x27]"
| "str_of_error (FileExistsError m) = m"
| "str_of_error (FileNotFoundError m) = m"
| "str_of_error (TypeError m) = m"
| "str_of_error (JSONDecodeError m) = m"
| "str_of_error (ProcessorException m) = m"

text \<open>
  \<^verbatim>\<open>_do_execute\<close>. The body of \<^verbatim>\<open>async with ctx:\<close> is the run of the processor; it
  raises when one of its calls on the context raises or when the processor itself raises.
  \<^verbatim>\<open>__aexit__\<close> then runs with the exception, and the exception reaches the
  \<^verbatim>\<open>except\<close> clause. The two callbacks are hooks of the user interface and are left out.
  One reading of the clock serves the whole call.
\<close>

definition body_exception :: "error option \<Rightarrow> outcome \<Rightarrow> error option" where
  "body_exception exc out =
     (case exc of
        Some e \<Rightarrow> Some e
      | None \<Rightarrow> (case out of Raise e \<Rightarrow> Some e | Return step_result \<Rightarrow> None))"

definition do_execute ::
  "datetime \<Rightarrow> Job \<Rightarrow> Processor \<Rightarrow> StepResult \<Rightarrow> world \<Rightarrow> StepResult \<times> Job \<times> world" where
  "do_execute now job processor result w =
     (let ctx = new_ExecutionContext job (p_name processor);
          run = p_process processor job;
          job1 = job\<lparr>j_data := pr_data run\<rparr>;
          (exc, st1) = ctx_calls now (pr_ops run) (w, ctx)
      in case body_exception exc (pr_outcome run) of
           Some e \<Rightarrow>
             (let st2 = aexit (Some e) st1;
                  result1 = r_fail now (str_of_error e) (Some (''Traceback: '' @ str_of_error e)) result;
                  st3 = (if p_auto_revert_on_error processor then rollback st2 else st2);
                  job2 = fail now (str_of_error e) job1;
                  job3 = add_step_result now result1 job2
              in (result1, job3, job_store_save job3 (fst st3)))
         | None \<Rightarrow>
             (let step_result = (case pr_outcome run of Return r \<Rightarrow> r | Raise e \<Rightarrow> result);
                  result1 = result\<lparr>r_status := r_status step_result,
                                   r_output_data := r_output_data step_result,
                                   r_error_message := r_error_message step_result,
                                   r_artifacts := c_pending_artifacts (snd st1)\<rparr>;
                  st2 = aexit None st1;
                  w3 = foldl (\<lambda>w a. artifact_store_save a w) (fst st2) (r_artifacts result1);
                  (result2, job2) =
                    (if r_status result1 = STEP_COMPLETED
                     then (r_complete now (Some (r_output_data result1)) result1,
                           merge_data now (r_output_data result1) job1)
                     else if r_status result1 = STEP_AWAITING_INPUT
                     then (result1, await_input now (p_name processor) job1)
                     else (result1, job1));
                  job3 = add_step_result now result2 job2
              in (result2, job3, job_store_save job3 w3)))"

text \<open>\<^verbatim>\<open>execute_step\<close> returns the step result, the job and the world as the call leaves
  them, or raises.\<close>

definition execute_step ::
  "datetime \<Rightarrow> ProcessorRegistry \<Rightarrow> Job \<Rightarrow> string \<Rightarrow> world \<Rightarrow> error + StepResult \<times> Job \<times> world" where
  "execute_step now reg job step_name w =
     (case get reg step_name of
        None \<Rightarrow> Inl (ValueError (''Processor '' @ [CHR 0x27] @ step_name @ [CHR 0x27] @ '' not found''))
      | Some processor \<Rightarrow>
          (let (can_run, reason) = can_run_step reg job step_name in
           if \<not> can_run then
             (let (rid, w1) = uuid4 w;
                  result = r_skip now (Some reason) (new_StepResult rid (j_id job) step_name)
              in Inr (result, job, w1))
           else
             (let (rid, w1) = uuid4 w;
                  result = r_start now (new_StepResult rid (j_id job) step_name);
                  job1 = start_processing now step_name job;
                  w2 = job_store_save job1 w1
              in if p_requires_input processor = ''always''
                    \<or> (p_requires_input processor = ''conditional''
                        \<and> p_requires_user_input processor job1)
                 then
                   (let result1 = r_await_input now result;
                        job2 = add_step_result now result1 (await_input now step_name job1)
                    in Inr (result1, job2, job_store_save job2 w2))
                 else Inr (do_execute now job1 processor result w2))))"






section \<open>Watch configuration (core/watchers/watch_config.py)\<close>

text \<open>
  A \<^verbatim>\<open>Path\<close> object: its anchor (\<^verbatim>\<open>/\<close> for an absolute POSIX path, empty for a
  relative one) and its components. \<^verbatim>\<open>str(path)\<close> joins them with the separator and
  \<^verbatim>\<open>path.name\<close> is the last component, or the empty string when there is none.
\<close>

record Path =
  anchor :: string
  parts :: "string list"

fun join_parts :: "string list \<Rightarrow> string" where
  "join_parts [] = []"
| "join_parts [x] = x"
| "join_parts (x # xs) = x @ ''/'' @ join_parts xs"

definition str_of_path :: "Path \<Rightarrow> string" where
  "str_of_path p =
     (if anchor p = [] \<and> parts p = [] then ''.'' else anchor p @ join_parts (parts p))"

definition path_name :: "Path \<Rightarrow> string" where
  "path_name p = (if parts p = [] then [] else last (parts p))"

datatype WatchEvent = CREATED | MODIFIED | DELETED | MOVED

record WatchConfig =
  wc_path :: Path
  wc_name :: string
  wc_patterns :: "string list"
  wc_recursive :: bool
  wc_events :: "WatchEvent list"
  wc_source_type :: string
  wc_initial_processor :: "string option"
  wc_ignore_patterns :: "string list"
  wc_enabled :: bool
  wc_tags :: "string list"
  wc_priority :: int

text \<open>\<^verbatim>\<open>WatchConfig(path=..., name=...)\<close> with the default patterns.\<close>

definition new_WatchConfig :: "Path \<Rightarrow> string \<Rightarrow> WatchConfig" where
  "new_WatchConfig path name =
     \<lparr>wc_path = path, wc_name = name, wc_patterns = [''*''], wc_recursive = False,
      wc_events = [CREATED, MODIFIED], wc_source_type = ''file'', wc_initial_processor = None,
      wc_ignore_patterns = [''*.tmp'', ''*.temp'', ''.DS_Store'', ''Thumbs.db'', ''*.swp'',
                            ''*.swo'', ''*~'', ''.git/*''],
      wc_enabled = True, wc_tags = [], wc_priority = 0\<rparr>"

text \<open>
  \<^verbatim>\<open>matches_file\<close>. The matcher \<^verbatim>\<open>fnmatch.fnmatch(name, pattern)\<close> of the standard
  library is the parameter \<open>fnmatch\<close>. The function reads the path and the
  configuration, never the file system.
\<close>

definition matches_file :: "(string \<Rightarrow> string \<Rightarrow> bool) \<Rightarrow> WatchConfig \<Rightarrow> Path \<Rightarrow> bool" where
  "matches_file fnmatch cfg file_path =
     (let filename = path_name file_path in
      if list_ex (\<lambda>pattern. fnmatch filename pattern \<or> fnmatch (str_of_path file_path) pattern)
           (wc_ignore_patterns cfg)
      then False
      else list_ex (\<lambda>pattern. fnmatch filename pattern) (wc_patterns cfg))"

text \<open>
  The two callers in \<^verbatim>\<open>file_watcher.py\<close> test the kind of the path themselves before
  they ask \<^verbatim>\<open>matches_file\<close>: \<^verbatim>\<open>scan_existing\<close> skips what is not a file, the watch
  loop skips directories. \<open>is_file\<close> and \<open>is_dir\<close> are the answers of the file system.
\<close>

definition scan_accepts ::
  "(string \<Rightarrow> string \<Rightarrow> bool) \<Rightarrow> (Path \<Rightarrow> bool) \<Rightarrow> WatchConfig \<Rightarrow> Path \<Rightarrow> bool" where
  "scan_accepts fnmatch is_file cfg file_path \<longleftrightarrow>
     (if \<not> is_file file_path then False else matches_file fnmatch cfg file_path)"

definition watch_accepts ::
  "(string \<Rightarrow> string \<Rightarrow> bool) \<Rightarrow> (Path \<Rightarrow> bool) \<Rightarrow> WatchConfig \<Rightarrow> Path \<Rightarrow> bool" where
  "watch_accepts fnmatch is_dir cfg path \<longleftrightarrow>
     (if is_dir path then False else matches_file fnmatch cfg path)"

text \<open>
  What \<^verbatim>\<open>fnmatch\<close> computes on POSIX for a pattern without brackets: \<^verbatim>\<open>*\<close> matches
  any run of characters, \<^verbatim>\<open>?\<close> any one character, every other character itself.
\<close>

fun glob_match :: "string \<Rightarrow> string \<Rightarrow> bool" where
  "glob_match [] [] \<longleftrightarrow> True"
| "glob_match (x # xs) [] \<longleftrightarrow> False"
| "glob_match [] (c # p) \<longleftrightarrow> c = CHR ''*'' \<and> glob_match [] p"
| "glob_match (x # xs) (c # p) \<longleftrightarrow>
     (if c = CHR ''*'' then glob_match (x # xs) p \<or> glob_match xs (c # p)
      else (c = CHR ''?'' \<or> c = x) \<and> glob_match xs p)"

section \<open>Specification vocabulary for the execution context\<close>




text \<open>Two worlds with the same files, platform and libraries.\<close>

definition same_disk :: "world \<Rightarrow> world \<Rightarrow> bool" where
  "same_disk w w' \<longleftrightarrow>
     w_fs w = w_fs w' \<and> w_platform w = w_platform w' \<and> w_lib w = w_lib w'"



section \<open>Example processors and registries\<close>

text \<open>A processor with the defaults of the base class, a name and a \<^verbatim>\<open>requires\<close> list;
  it applies to every job and its \<^verbatim>\<open>process\<close> completes without touching anything.\<close>

definition example_run :: "Job \<Rightarrow> proc_run" where
  "example_run job =
     \<lparr>pr_ops = [], pr_data = j_data job,
      pr_outcome = Return ((new_StepResult ''r'' (j_id job) [])\<lparr>r_status := STEP_COMPLETED\<rparr>)\<rparr>"

definition example_processor :: "string \<Rightarrow> string list \<Rightarrow> Processor" where
  "example_processor name requires =
     \<lparr>p_name = name, p_display_name = [], p_description = [], p_requires = requires,
      p_config_schema = [], p_default_config = [], p_has_ui = False,
      p_requires_input = ''never'', p_can_skip = True, p_auto_revert_on_error = True,
      p_should_process = (\<lambda>job. Inr True), p_requires_user_input = (\<lambda>job. False),
      p_process = example_run,
      p_revert = (\<lambda>job r. (j_data job, Inr True))\<rparr>"

definition register_all :: "Processor list \<Rightarrow> ProcessorRegistry" where
  "register_all ps = foldl (\<lambda>reg p. snd (register reg p)) empty_registry ps"

text \<open>Registered in this order: \<^verbatim>\<open>A\<close>, then \<^verbatim>\<open>B\<close> (requires \<^verbatim>\<open>A\<close>), then
  \<^verbatim>\<open>C\<close>.\<close>

definition registry_ABC :: ProcessorRegistry where
  "registry_ABC =
     register_all [example_processor ''A'' [], example_processor ''B'' [''A''],
                   example_processor ''C'' []]"

text \<open>A job whose history holds one completed result, of step \<^verbatim>\<open>A\<close>.\<close>

definition job_A_done :: Job where
  "job_A_done =
     add_step_result 2 (r_complete 1 None (new_StepResult ''r1'' ''j'' ''A''))
       (new_Job ''j'' ''test'' ''test'' 0)"

text \<open>A library whose YAML and JSON functions know the empty mapping only.\<close>

definition example_library :: library where
  "example_library =
     \<lparr>yaml_safe_load = (\<lambda>s. if s = [] then Some Falsy else None),
      yaml_dump = (\<lambda>d. []),
      json_dumps = (\<lambda>d. ''{}''),
      json_loads = (\<lambda>s. if s = ''{}'' then Some [] else None)\<rparr>"

text \<open>A world with two files and empty stores.\<close>

definition example_world :: "platform \<Rightarrow> world" where
  "example_world pf =
     \<lparr>w_fs = [''a.txt'' \<mapsto> ''user data'', ''b.txt'' \<mapsto> ''moved''],
      w_platform = pf, w_lib = example_library, w_artifacts = [], w_jobs = [], w_uuids = 0\<rparr>"

text \<open>The artifact that \<^verbatim>\<open>move_file("a.txt", "b.txt")\<close> records.\<close>

definition example_move_artifact :: Artifact where
  "example_move_artifact =
     a_mark_created
       (new_Artifact ''uuid-a'' 1 (new_ExecutionContext (new_Job ''j'' ''test'' ''test'' 0) ''mv'')
          FILE_MOVE ''b.txt'' (Some ''a.txt'') (Some ''b.txt'') [] FULLY_REVERSIBLE)"





text \<open>A watch on \<^verbatim>\<open>/w\<close> with the default patterns, and the path \<^verbatim>\<open>/w/docs\<close>.\<close>

definition example_watch :: WatchConfig where
  "example_watch = new_WatchConfig \<lparr>anchor = ''/'', parts = [''w'']\<rparr> ''inbox''"

definition docs_path :: Path where
  "docs_path = \<lparr>anchor = ''/'', parts = [''w'', ''docs'']\<rparr>"

section \<open>Properties of the job state machine\<close>

lemmas job_transition_defs =
  new_Job_def start_processing_def await_input_def complete_def fail_def cancel_def
  start_revert_def complete_revert_def

text \<open>
  C4 (as stated, refuted). The claim says that in every reachable job state
  \<^verbatim>\<open>current_step\<close> is non-null iff the status is \<^verbatim>\<open>processing\<close> or
  \<^verbatim>\<open>awaiting_input\<close>. A job that starts processing step \<^verbatim>\<open>s\<close> and then fails is
  reachable, has status \<^verbatim>\<open>failed\<close>, and still has \<^verbatim>\<open>current_step = s\<close>:
  \<^verbatim>\<open>fail\<close> does not touch the field.
\<close>

theorem C4_current_step_iff_counterexample:
  "reachable (fail 2 ''boom'' (start_processing 1 ''s'' (new_Job ''j'' ''test'' ''test'' 0)))
   \<and> j_current_step (fail 2 ''boom'' (start_processing 1 ''s'' (new_Job ''j'' ''test'' ''test'' 0)))
       = Some ''s''
   \<and> j_status (fail 2 ''boom'' (start_processing 1 ''s'' (new_Job ''j'' ''test'' ''test'' 0)))
       = JOB_FAILED"
  by (simp add: reachable.intros) (simp add: job_transition_defs)

text \<open>
  C4 (amended). In every job state reachable through the state-transition methods: if the
  status is \<^verbatim>\<open>processing\<close> or \<^verbatim>\<open>awaiting_input\<close> then \<^verbatim>\<open>current_step\<close> is
  non-null, and if the status is \<^verbatim>\<open>completed\<close> or \<^verbatim>\<open>reverted\<close> then
  \<^verbatim>\<open>current_step\<close> is null. (In the other statuses the field keeps whatever the last
  method left in it.)
\<close>

theorem C4_current_step_when_active:
  assumes "reachable j"
  shows "(j_status j \<in> {JOB_PROCESSING, JOB_AWAITING_INPUT} \<longrightarrow> j_current_step j \<noteq> None)
       \<and> (j_status j \<in> {JOB_COMPLETED, JOB_REVERTED} \<longrightarrow> j_current_step j = None)"
  using assms
  by (induction rule: reachable.induct) (simp_all add: job_transition_defs Let_def)

theorem C4_current_step_when_active_witness:
  "reachable (await_input 2 ''s'' (start_processing 1 ''s'' (new_Job ''j'' ''test'' ''test'' 0)))
   \<and> j_status (await_input 2 ''s'' (start_processing 1 ''s'' (new_Job ''j'' ''test'' ''test'' 0)))
       \<in> {JOB_PROCESSING, JOB_AWAITING_INPUT}
   \<and> j_current_step (await_input 2 ''s'' (start_processing 1 ''s'' (new_Job ''j'' ''test'' ''test'' 0)))
       \<noteq> None"
proof -
  let ?j = "await_input 2 ''s'' (start_processing 1 ''s'' (new_Job ''j'' ''test'' ''test'' 0))"
  have r: "reachable ?j"
    by (intro reachable.intros)
  have s: "j_status ?j \<in> {JOB_PROCESSING, JOB_AWAITING_INPUT}"
    by (simp add: job_transition_defs)
  from C4_current_step_when_active [OF r] s show ?thesis
    using r by blast
qed

section \<open>Properties of the registry\<close>

text \<open>
  C10. If \<^verbatim>\<open>register(p)\<close> raises, which it does exactly when \<^verbatim>\<open>p.name\<close> is empty or
  already registered, the registry after the call is the registry before it: both
  dictionaries are unchanged and \<^verbatim>\<open>get\<close> returns what it returned before.
\<close>

theorem C10_register_raise_unchanged:
  assumes "fst (register reg p) = Inl e"
  shows "snd (register reg p) = reg
       \<and> reg_processors (snd (register reg p)) = reg_processors reg
       \<and> reg_definitions (snd (register reg p)) = reg_definitions reg
       \<and> (\<forall>name. get (snd (register reg p)) name = get reg name)
       \<and> (p_name p = [] \<or> has reg (p_name p))"
  using assms by (auto simp: register_def has_def split: if_splits)

theorem C10_register_raise_unchanged_witness:
  "fst (register registry_ABC (example_processor ''B'' []))
     = Inl (ValueError (''Processor '' @ [CHR 0x27] @ ''B'' @ [CHR 0x27] @ '' is already registered''))
   \<and> snd (register registry_ABC (example_processor ''B'' [])) = registry_ABC
   \<and> map_option p_requires (get (snd (register registry_ABC (example_processor ''B'' []))) ''B'')
       = Some [''A'']"
proof -
  have names: "map fst (reg_processors registry_ABC) = [''A'', ''B'', ''C'']"
    by (simp add: registry_ABC_def register_all_def register_def empty_registry_def
        example_processor_def)
  have raised: "fst (register registry_ABC (example_processor ''B'' []))
      = Inl (ValueError (''Processor '' @ [CHR 0x27] @ ''B'' @ [CHR 0x27] @ '' is already registered''))"
    by (simp add: register_def names) (simp add: example_processor_def)
  have before: "map_option p_requires (get registry_ABC ''B'') = Some [''A'']"
    by (simp add: registry_ABC_def register_all_def register_def empty_registry_def
        example_processor_def get_def)
  from C10_register_raise_unchanged [OF raised] raised before show ?thesis
    by simp
qed

subsection \<open>The graph construction\<close>

lemma map_of_dict_init_aux:
  "map_of (foldl (\<lambda>d p. AList.update p v d) d0 ps) k
     = (if k \<in> set ps then Some v else map_of d0 k)"
  by (induction ps arbitrary: d0) (auto simp: update_conv')

lemma map_of_dict_init: "map_of (dict_init v ps) k = (if k \<in> set ps then Some v else None)"
  by (simp add: dict_init_def map_of_dict_init_aux)

lemma add_edges_spec:
  assumes "map_of ind proc = Some n" and "\<forall>d\<in>set names. map_of g d \<noteq> None"
  shows "\<exists>ind' g'. add_edges names proc deps (ind, g) = Inr (ind', g')
          \<and> map_of ind' = (map_of ind)(proc \<mapsto> n + int (length (filter (\<lambda>d. d \<in> set names) deps)))
          \<and> (\<forall>d. map_of g' d
                = map_option (\<lambda>l. l @ map (\<lambda>x. proc) (filter (\<lambda>x. x = d) (filter (\<lambda>d. d \<in> set names) deps)))
                    (map_of g d))"
  using assms
proof (induction deps arbitrary: ind g n)
  case Nil
  then show ?case by (auto simp: map_option.identity option.map_ident)
next
  case (Cons dep deps)
  show ?case
  proof (cases "dep \<in> set names")
    case False
    then have "add_edges names proc (dep # deps) (ind, g) = add_edges names proc deps (ind, g)"
      by (simp add: add_edge_def)
    moreover have "filter (\<lambda>d. d \<in> set names) (dep # deps) = filter (\<lambda>d. d \<in> set names) deps"
      using False by simp
    ultimately show ?thesis
      using Cons.IH [OF Cons.prems] by simp
  next
    case True
    with Cons.prems obtain l where l: "map_of g dep = Some l"
      by auto
    let ?ind = "AList.update proc (n + 1) ind"
    let ?g = "AList.update dep (l @ [proc]) g"
    have step: "add_edges names proc (dep # deps) (ind, g) = add_edges names proc deps (?ind, ?g)"
      using True l Cons.prems(1) by (simp add: add_edge_def dict_get_def)
    have 1: "map_of ?ind proc = Some (n + 1)"
      by (simp add: update_conv')
    have 2: "\<forall>d\<in>set names. map_of ?g d \<noteq> None"
      using Cons.prems(2) by (simp add: update_conv')
    from Cons.IH [OF 1 2] obtain ind' g' where
      r: "add_edges names proc deps (?ind, ?g) = Inr (ind', g')"
      and i: "map_of ind' = (map_of ?ind)(proc \<mapsto> n + 1 + int (length (filter (\<lambda>d. d \<in> set names) deps)))"
      and g: "\<forall>d. map_of g' d
                = map_option (\<lambda>l. l @ map (\<lambda>x. proc) (filter (\<lambda>x. x = d) (filter (\<lambda>d. d \<in> set names) deps)))
                    (map_of ?g d)"
      by blast
    have i': "map_of ind' = (map_of ind)(proc \<mapsto> n + int (length (filter (\<lambda>d. d \<in> set names) (dep # deps))))"
      using i True by (simp add: update_conv' add.assoc)
    have g': "map_of g' d
                = map_option (\<lambda>l. l @ map (\<lambda>x. proc) (filter (\<lambda>x. x = d) (filter (\<lambda>d. d \<in> set names) (dep # deps))))
                    (map_of g d)" for d
      using g [rule_format, of d] True l by (auto simp: update_conv')
    show ?thesis
      unfolding step using r i' g' by blast
  qed
qed

lemma build_graph_spec:
  assumes "\<forall>p\<in>set procs. map_of ind p \<noteq> None" and "\<forall>d\<in>set names. map_of g d \<noteq> None"
  shows "\<exists>ind' g'. build_graph reg names procs (ind, g) = Inr (ind', g')
          \<and> (\<forall>p. map_of ind' p
                = map_option (\<lambda>n. n + int (count_list procs p * length (requires_in reg names p)))
                    (map_of ind p))
          \<and> (\<forall>d. map_of g' d = map_option (\<lambda>l. l @ edges_to reg names procs d) (map_of g d))"
  using assms
proof (induction procs arbitrary: ind g)
  case Nil
  then show ?case by (simp add: edges_to_def option.map_ident)
next
  case (Cons proc procs)
  from Cons.prems(1) obtain n where n: "map_of ind proc = Some n"
    by auto
  from add_edges_spec [OF n Cons.prems(2), of "get_dependencies reg proc"]
  obtain ind1 g1 where
    a: "add_edges names proc (get_dependencies reg proc) (ind, g) = Inr (ind1, g1)"
    and i1: "map_of ind1 = (map_of ind)(proc \<mapsto> n + int (length (requires_in reg names proc)))"
    and g1: "\<forall>d. map_of g1 d
               = map_option (\<lambda>l. l @ map (\<lambda>x. proc) (filter (\<lambda>x. x = d) (requires_in reg names proc)))
                   (map_of g d)"
    unfolding requires_in_def by blast
  have 1: "\<forall>p\<in>set procs. map_of ind1 p \<noteq> None"
    using Cons.prems(1) i1 by simp
  have 2: "\<forall>d\<in>set names. map_of g1 d \<noteq> None"
    using Cons.prems(2) g1 by simp
  from Cons.IH [OF 1 2] obtain ind' g' where
    b: "build_graph reg names procs (ind1, g1) = Inr (ind', g')"
    and i': "\<forall>p. map_of ind' p
                = map_option (\<lambda>n. n + int (count_list procs p * length (requires_in reg names p)))
                    (map_of ind1 p)"
    and g': "\<forall>d. map_of g' d = map_option (\<lambda>l. l @ edges_to reg names procs d) (map_of g1 d)"
    by blast
  have r: "build_graph reg names (proc # procs) (ind, g) = Inr (ind', g')"
    using a b by simp
  have i: "map_of ind' p
                = map_option (\<lambda>n. n + int (count_list (proc # procs) p * length (requires_in reg names p)))
                    (map_of ind p)" for p
    using i' [rule_format, of p] i1 n
    by (cases "map_of ind p") (auto simp: algebra_simps)
  have gg: "map_of g' d = map_option (\<lambda>l. l @ edges_to reg names (proc # procs) d) (map_of g d)" for d
    using g' [rule_format, of d] g1 [rule_format, of d]
    by (cases "map_of g d") (auto simp: edges_to_def)
  from r i gg show ?case by blast
qed

lemma build_graph_init:
  "\<exists>ind g. build_graph reg names names (dict_init 0 names, dict_init [] names) = Inr (ind, g)
      \<and> (\<forall>p. map_of ind p
            = (if p \<in> set names
               then Some (int (count_list names p * length (requires_in reg names p))) else None))
      \<and> (\<forall>d. map_of g d = (if d \<in> set names then Some (edges_to reg names names d) else None))"
proof -
  have 1: "\<forall>p\<in>set names. map_of (dict_init (0::int) names) p \<noteq> None"
    by (simp add: map_of_dict_init)
  have 2: "\<forall>d\<in>set names. map_of (dict_init ([]::string list) names) d \<noteq> None"
    by (simp add: map_of_dict_init)
  from build_graph_spec [OF 1 2, of reg] show ?thesis
    by (auto simp: map_of_dict_init)
qed

lemma initial_queue_spec:
  "\<forall>p\<in>set ps. map_of ind p \<noteq> None
     \<Longrightarrow> initial_queue ind ps = Inr (filter (\<lambda>p. map_of ind p = Some 0) ps)"
  by (induction ps) (auto simp: dict_get_def)



lemma count_list_pos_iff: "0 < count_list xs x \<longleftrightarrow> x \<in> set xs"
  using count_list_0_iff [of xs x] by auto

lemma distinct_count_list: "distinct xs \<Longrightarrow> x \<in> set xs \<Longrightarrow> count_list xs x = 1"
  by (induction xs) auto

lemma relax_spec:
  assumes "\<forall>d\<in>set ds. map_of ind d \<noteq> None"
  shows "\<exists>ind' ys. relax ds ind queue = Inr (ind', queue @ ys)
          \<and> (\<forall>p. map_of ind' p = map_option (\<lambda>n. n - int (count_list ds p)) (map_of ind p))
          \<and> distinct ys
          \<and> set ys = {p \<in> set ds. \<exists>n. map_of ind p = Some n \<and> 1 \<le> n \<and> n \<le> int (count_list ds p)}"
  using assms
proof (induction ds arbitrary: ind queue)
  case Nil
  then show ?case by (simp add: option.map_ident)
next
  case (Cons d ds)
  from Cons.prems obtain n where n: "map_of ind d = Some n"
    by auto
  let ?ind = "AList.update d (n - 1) ind"
  let ?q = "if n - 1 = 0 then queue @ [d] else queue"
  have step: "relax (d # ds) ind queue = relax ds ?ind ?q"
    using n by (simp add: dict_get_def)
  have "\<forall>x\<in>set ds. map_of ?ind x \<noteq> None"
    using Cons.prems by (simp add: update_conv')
  from Cons.IH [OF this, of ?q] obtain ind' ys where
    r: "relax ds ?ind ?q = Inr (ind', ?q @ ys)"
    and i: "\<forall>p. map_of ind' p = map_option (\<lambda>m. m - int (count_list ds p)) (map_of ?ind p)"
    and dist: "distinct ys"
    and ys: "set ys = {p \<in> set ds. \<exists>m. map_of ?ind p = Some m \<and> 1 \<le> m \<and> m \<le> int (count_list ds p)}"
    by blast
  let ?ys = "(if n - 1 = 0 then [d] else []) @ ys"
  have 1: "relax (d # ds) ind queue = Inr (ind', queue @ ?ys)"
    using step r by simp
  have 2: "map_of ind' p = map_option (\<lambda>m. m - int (count_list (d # ds) p)) (map_of ind p)" for p
    using i [rule_format, of p] n by (cases "p = d") (simp_all add: update_conv')
  have dnot: "n - 1 = 0 \<Longrightarrow> d \<notin> set ys"
    using ys by (simp add: update_conv')
  have 3: "distinct ?ys"
    using dist dnot by simp
  have 4: "set ?ys = {p \<in> set (d # ds). \<exists>m. map_of ind p = Some m \<and> 1 \<le> m \<and> m \<le> int (count_list (d # ds) p)}"
  proof (intro set_eqI iffI)
    fix p assume p: "p \<in> set ?ys"
    show "p \<in> {p \<in> set (d # ds). \<exists>m. map_of ind p = Some m \<and> 1 \<le> m \<and> m \<le> int (count_list (d # ds) p)}"
    proof (cases "p = d")
      case True
      from p have "n - 1 = 0 \<or> (1 \<le> n - 1 \<and> n - 1 \<le> int (count_list ds d))"
        using ys True by (auto simp: update_conv' split: if_splits)
      then show ?thesis using True n by auto
    next
      case False
      with p have "p \<in> set ys" by (auto split: if_splits)
      with ys False show ?thesis by (auto simp: update_conv')
    qed
  next
    fix p assume p: "p \<in> {p \<in> set (d # ds). \<exists>m. map_of ind p = Some m \<and> 1 \<le> m \<and> m \<le> int (count_list (d # ds) p)}"
    show "p \<in> set ?ys"
    proof (cases "p = d")
      case True
      with p n have b: "1 \<le> n" "n \<le> int (count_list ds d) + 1" by auto
      show ?thesis
      proof (cases "n - 1 = 0")
        case True
        then show ?thesis using \<open>p = d\<close> by simp
      next
        case False
        with b have c: "1 \<le> n - 1" "n - 1 \<le> int (count_list ds d)" by auto
        then have "0 < count_list ds d" by linarith
        then have "d \<in> set ds" by (simp add: count_list_pos_iff)
        with c have "d \<in> set ys" using ys by (simp add: update_conv')
        then show ?thesis using \<open>p = d\<close> by simp
      qed
    next
      case False
      with p have "p \<in> set ys" using ys by (auto simp: update_conv')
      then show ?thesis by simp
    qed
  qed
  from 1 2 3 4 show ?case by blast
qed

lemma count_list_edges_to:
  "count_list (edges_to reg names procs d) p
     = count_list procs p * count_list (requires_in reg names p) d"
proof (induction procs)
  case Nil
  then show ?case by (simp add: edges_to_def)
next
  case (Cons q procs)
  have m: "count_list (map (\<lambda>x. q) xs) p = (if q = p then length xs else 0)" for xs :: "string list"
    by (induction xs) auto
  have f: "length (filter (\<lambda>x. x = d) xs) = count_list xs d" for xs :: "string list"
    by (induction xs) auto
  have "edges_to reg names (q # procs) d
      = map (\<lambda>x. q) (filter (\<lambda>x. x = d) (requires_in reg names q)) @ edges_to reg names procs d"
    by (simp add: edges_to_def)
  then show ?case
    using Cons.IH by (simp add: m f)
qed

lemma set_edges_to: "set (edges_to reg names procs d) \<subseteq> set procs"
  by (auto simp: edges_to_def)

lemma unmet_snoc:
  "node \<notin> set result
     \<Longrightarrow> unmet reg names result p
         = unmet reg names (result @ [node]) p + count_list (requires_in reg names p) node"
proof -
  have "a \<notin> S \<Longrightarrow> length (filter (\<lambda>d. d \<notin> S) xs)
      = length (filter (\<lambda>d. d \<notin> insert a S) xs) + count_list xs a" for a S and xs :: "string list"
    by (induction xs) auto
  from this [of node "set result" "requires_in reg names p"]
  show "node \<notin> set result \<Longrightarrow> ?thesis"
    by (simp add: unmet_def)
qed

lemma unmet_0_iff: "unmet reg names result p = 0 \<longleftrightarrow> set (requires_in reg names p) \<subseteq> set result"
  by (auto simp: unmet_def filter_empty_conv)

lemma kahn_inv_step:
  assumes g: "\<forall>d. map_of g d = (if d \<in> set names then Some (edges_to reg names names d) else None)"
    and dn: "distinct names"
    and inv: "kahn_inv reg names ind (node # queue) result"
  shows "\<exists>ind' ys. dict_get g node = Inr (edges_to reg names names node)
          \<and> relax (edges_to reg names names node) ind queue = Inr (ind', queue @ ys)
          \<and> kahn_inv reg names ind' (queue @ ys) (result @ [node])"
proof -
  let ?G = "edges_to reg names names node"
  from inv have dist: "distinct (result @ node # queue)"
    and sub: "set (result @ node # queue) \<subseteq> set names"
    and indv: "\<And>p. map_of ind p = (if p \<in> set names then Some (int (unmet reg names result p)) else None)"
    and mem: "\<And>p. p \<in> set names \<Longrightarrow> p \<in> set (result @ node # queue) \<longleftrightarrow> unmet reg names result p = 0"
    and topo: "\<And>i. i < length result \<Longrightarrow> set (requires_in reg names (result ! i)) \<subseteq> set (take i result)"
    by (auto simp: kahn_inv_def)
  from sub have node_in: "node \<in> set names" by simp
  from dist have node_new: "node \<notin> set result" by simp
  have dg: "dict_get g node = Inr ?G"
    using g node_in by (simp add: dict_get_def)
  have Gsub: "set ?G \<subseteq> set names"
    by (rule set_edges_to)
  have cnt: "count_list ?G p = count_list (requires_in reg names p) node" if "p \<in> set names" for p
    using that dn by (simp add: count_list_edges_to distinct_count_list)
  have "\<forall>d\<in>set ?G. map_of ind d \<noteq> None"
    using Gsub indv by auto
  from relax_spec [OF this, of queue] obtain ind' ys where
    r: "relax ?G ind queue = Inr (ind', queue @ ys)"
    and i': "\<And>p. map_of ind' p = map_option (\<lambda>n. n - int (count_list ?G p)) (map_of ind p)"
    and dys: "distinct ys"
    and ys: "set ys = {p \<in> set ?G. \<exists>n. map_of ind p = Some n \<and> 1 \<le> n \<and> n \<le> int (count_list ?G p)}"
    by blast
  have split: "unmet reg names result p
      = unmet reg names (result @ [node]) p + count_list ?G p" if "p \<in> set names" for p
    using unmet_snoc [OF node_new, of reg names p] cnt [OF that] by simp
  have ys_iff: "p \<in> set ys \<longleftrightarrow> p \<in> set names \<and> 0 < count_list ?G p \<and> unmet reg names (result @ [node]) p = 0" for p
  proof (cases "p \<in> set names")
    case False
    then show ?thesis using ys Gsub by auto
  next
    case True
    have "p \<in> set ys \<longleftrightarrow> p \<in> set ?G \<and> 1 \<le> unmet reg names result p \<and> unmet reg names result p \<le> count_list ?G p"
      using ys indv [of p] True by auto
    also have "\<dots> \<longleftrightarrow> 0 < count_list ?G p \<and> unmet reg names (result @ [node]) p = 0"
      using split [OF True] by (auto simp: count_list_pos_iff [symmetric])
    finally show ?thesis using True by simp
  qed
  have ys_names: "set ys \<subseteq> set names"
    using ys_iff by auto
  have ys_new: "p \<notin> set (result @ node # queue)" if "p \<in> set ys" for p
  proof -
    from that have pn: "p \<in> set names" and "0 < count_list ?G p" using ys_iff by auto
    with split [OF pn] have "unmet reg names result p \<noteq> 0" by simp
    with mem [OF pn] show ?thesis by simp
  qed
  have 1: "distinct ((result @ [node]) @ queue @ ys)"
    using dist dys ys_new by auto
  have 2: "set ((result @ [node]) @ queue @ ys) \<subseteq> set names"
    using sub ys_names by auto
  have 3: "map_of ind' p = (if p \<in> set names then Some (int (unmet reg names (result @ [node]) p)) else None)" for p
    using i' [of p] indv [of p] split [of p] by auto
  have 4: "p \<in> set ((result @ [node]) @ queue @ ys) \<longleftrightarrow> unmet reg names (result @ [node]) p = 0"
    if pn: "p \<in> set names" for p
  proof
    assume "p \<in> set ((result @ [node]) @ queue @ ys)"
    then consider "p \<in> set (result @ node # queue)" | "p \<in> set ys" by auto
    then show "unmet reg names (result @ [node]) p = 0"
    proof cases
      case 1
      with mem [OF pn] split [OF pn] show ?thesis by simp
    next
      case 2
      then show ?thesis using ys_iff by simp
    qed
  next
    assume z: "unmet reg names (result @ [node]) p = 0"
    show "p \<in> set ((result @ [node]) @ queue @ ys)"
    proof (cases "count_list ?G p = 0")
      case True
      with z split [OF pn] mem [OF pn] show ?thesis by auto
    next
      case False
      with z pn have "p \<in> set ys" using ys_iff by simp
      then show ?thesis by simp
    qed
  qed
  have node_ready: "set (requires_in reg names node) \<subseteq> set result"
    using mem [OF node_in] by (simp add: unmet_0_iff)
  have 5: "set (requires_in reg names ((result @ [node]) ! i)) \<subseteq> set (take i (result @ [node]))"
    if "i < length (result @ [node])" for i
  proof (cases "i < length result")
    case True
    with topo [OF True] show ?thesis by (simp add: nth_append)
  next
    case False
    with that have "i = length result" by simp
    with node_ready show ?thesis by simp
  qed
  have "kahn_inv reg names ind' (queue @ ys) (result @ [node])"
    unfolding kahn_inv_def using 1 2 3 4 5 by blast
  with dg r show ?thesis by blast
qed

lemma kahn_correct:
  assumes "\<forall>d. map_of g d = (if d \<in> set names then Some (edges_to reg names names d) else None)"
    and "distinct names"
    and "kahn_inv reg names ind queue result"
  shows "\<exists>out ind'. kahn g ind queue result = Inr out \<and> kahn_inv reg names ind' [] out"
  using assms
proof (induction g ind queue result rule: kahn.induct)
  case (1 g ind result)
  then show ?case by auto
next
  case (2 g ind node queue result)
  from kahn_inv_step [OF "2.prems"] obtain ind' ys where
    d: "dict_get g node = Inr (edges_to reg names names node)"
    and r: "relax (edges_to reg names names node) ind queue = Inr (ind', queue @ ys)"
    and inv: "kahn_inv reg names ind' (queue @ ys) (result @ [node])"
    by blast
  from "2.IH" [OF d r] "2.prems"(1,2) inv
  obtain out ind'' where "kahn g ind' (queue @ ys) (result @ [node]) = Inr out"
    and "kahn_inv reg names ind'' [] out"
    by auto
  with d r show ?case by auto
qed

lemma kahn_inv_initial:
  assumes "\<forall>p. map_of ind p
            = (if p \<in> set names
               then Some (int (count_list names p * length (requires_in reg names p))) else None)"
    and "distinct names"
  shows "kahn_inv reg names ind (filter (\<lambda>p. requires_in reg names p = []) names) []"
  using assms
  by (auto simp: kahn_inv_def unmet_def distinct_count_list)

lemma acyclic_all_emitted:
  assumes ac: "acyclic (requires_rel reg names)"
    and sub: "set out \<subseteq> set names"
    and closed: "\<forall>p\<in>set names. p \<in> set out \<longleftrightarrow> set (requires_in reg names p) \<subseteq> set out"
  shows "set out = set names"
proof (rule ccontr)
  assume "set out \<noteq> set names"
  with sub have ne: "set names - set out \<noteq> {}" by auto
  have "requires_rel reg names \<subseteq> set names \<times> set names"
    by (auto simp: requires_rel_def)
  then have "finite (requires_rel reg names)"
    by (rule finite_subset) simp
  then have "wf ((requires_rel reg names)\<inverse>)"
    using ac by (simp add: wf_iff_acyclic_if_finite)
  from wfE_min [OF this] ne obtain z where
    z: "z \<in> set names - set out"
    and zmin: "\<And>y. (y, z) \<in> (requires_rel reg names)\<inverse> \<Longrightarrow> y \<notin> set names - set out"
    by (metis all_not_in_conv)
  have "set (requires_in reg names z) \<subseteq> set out"
  proof
    fix d assume "d \<in> set (requires_in reg names z)"
    then have "(d, z) \<in> (requires_rel reg names)\<inverse>" and "d \<in> set names"
      using z by (auto simp: requires_rel_def requires_in_def)
    with zmin show "d \<in> set out" by blast
  qed
  with closed z show False by auto
qed

lemma appears_after_append:
  "d \<in> set ys \<Longrightarrow> p \<in> set zs \<Longrightarrow> appears_after (ys @ zs) p d"
  by (induction ys) auto

subsection \<open>The execution order\<close>

text \<open>
  C1 (as stated, refuted). The claim is made for every list of registered names whose
  restricted \<^verbatim>\<open>requires\<close> relation is acyclic. The dictionaries are keyed by name while
  the final length test counts the list, so a list that repeats a name with an in-list
  requirement raises the circular-dependency error: \<^verbatim>\<open>["A", "B", "B"]\<close>, where
  \<^verbatim>\<open>B\<close> requires \<^verbatim>\<open>A\<close>.
\<close>

theorem C1_duplicate_names_counterexample:
  "list_all (has registry_ABC) [''A'', ''B'', ''B'']
   \<and> acyclic (requires_rel registry_ABC [''A'', ''B'', ''B''])
   \<and> get_execution_order registry_ABC [''A'', ''B'', ''B''] = Inl (CircularDependency [])"
proof -
  have "requires_rel registry_ABC [''A'', ''B'', ''B''] = {(''B'', ''A'')}"
    by (auto simp: requires_rel_def get_dependencies_def get_def registry_ABC_def register_all_def
        register_def empty_registry_def example_processor_def split: if_splits)
  moreover have "acyclic ({} :: (string \<times> string) set)"
    by (simp add: acyclic_def)
  ultimately have "acyclic (requires_rel registry_ABC [''A'', ''B'', ''B''])"
    by simp
  moreover have "list_all (has registry_ABC) [''A'', ''B'', ''B'']"
    by code_simp
  moreover have "get_execution_order registry_ABC [''A'', ''B'', ''B''] = Inl (CircularDependency [])"
    by code_simp
  ultimately show ?thesis by simp
qed

text \<open>
  C1 (amended). For every registry and every duplicate-free list \<open>names\<close> whose
  \<^verbatim>\<open>requires\<close> relation restricted to \<open>names\<close> is acyclic,
  \<^verbatim>\<open>get_execution_order(names)\<close> returns a permutation of \<open>names\<close> in which every
  processor appears after every element of its \<^verbatim>\<open>requires\<close> list that is also in
  \<open>names\<close>.
\<close>

theorem C1_topological_order:
  assumes dn: "distinct names"
    and ac: "acyclic (requires_rel reg names)"
  shows "\<exists>order. get_execution_order reg names = Inr order
           \<and> mset order = mset names
           \<and> (\<forall>p\<in>set names. \<forall>d\<in>set (get_dependencies reg p).
                 d \<in> set names \<longrightarrow> appears_after order p d)"
proof -
  from build_graph_init [of reg names] obtain ind g where
    b: "build_graph reg names names (dict_init 0 names, dict_init [] names) = Inr (ind, g)"
    and i: "\<forall>p. map_of ind p
            = (if p \<in> set names
               then Some (int (count_list names p * length (requires_in reg names p))) else None)"
    and g: "\<forall>d. map_of g d = (if d \<in> set names then Some (edges_to reg names names d) else None)"
    by blast
  let ?roots = "filter (\<lambda>p. requires_in reg names p = []) names"
  have "\<forall>p\<in>set names. map_of ind p \<noteq> None"
    using i by simp
  then have "initial_queue ind names = Inr (filter (\<lambda>p. map_of ind p = Some 0) names)"
    by (rule initial_queue_spec)
  moreover have "filter (\<lambda>p. map_of ind p = Some 0) names = ?roots"
    by (rule filter_cong) (auto simp: i count_list_0_iff)
  ultimately have q: "initial_queue ind names = Inr ?roots"
    by simp
  from kahn_correct [OF g dn kahn_inv_initial [OF i dn]] obtain out ind' where
    k: "kahn g ind ?roots [] = Inr out" and inv: "kahn_inv reg names ind' [] out"
    by blast
  from inv have dout: "distinct out" and sub: "set out \<subseteq> set names"
    and closed: "\<forall>p\<in>set names. p \<in> set out \<longleftrightarrow> set (requires_in reg names p) \<subseteq> set out"
    and topo: "\<And>i. i < length out \<Longrightarrow> set (requires_in reg names (out ! i)) \<subseteq> set (take i out)"
    by (auto simp: kahn_inv_def unmet_0_iff)
  from acyclic_all_emitted [OF ac sub closed] have seq: "set out = set names" .
  with dout dn have ms: "mset out = mset names"
    by (simp add: set_eq_iff_mset_eq_distinct)
  then have len: "length out = length names"
    by (metis size_mset)
  have res: "get_execution_order reg names = Inr out"
    using b q k len by (simp add: get_execution_order_def)
  have after: "appears_after out p d"
    if "p \<in> set names" "d \<in> set (get_dependencies reg p)" "d \<in> set names" for p d
  proof -
    from that(1) seq have "p \<in> set out" by simp
    then obtain i where il: "i < length out" and pi: "out ! i = p"
      by (auto simp: in_set_conv_nth)
    from that have "d \<in> set (requires_in reg names p)"
      by (simp add: requires_in_def)
    with topo [OF il] pi have "d \<in> set (take i out)" by auto
    moreover have "p \<in> set (drop i out)"
      using il pi by (metis Cons_nth_drop_Suc list.set_intros(1))
    ultimately have "appears_after (take i out @ drop i out) p d"
      by (rule appears_after_append)
    then show ?thesis by simp
  qed
  from res ms after show ?thesis by blast
qed

theorem C1_topological_order_witness:
  "distinct [''A'', ''B'', ''C'']
   \<and> acyclic (requires_rel registry_ABC [''A'', ''B'', ''C''])
   \<and> get_dependencies registry_ABC ''B'' = [''A'']
   \<and> (\<exists>order. get_execution_order registry_ABC [''A'', ''B'', ''C''] = Inr order
         \<and> mset order = mset [''A'', ''B'', ''C'']
         \<and> appears_after order ''B'' ''A'')"
proof -
  have d: "distinct [''A'', ''B'', ''C'']"
    by simp
  have "requires_rel registry_ABC [''A'', ''B'', ''C''] = {(''B'', ''A'')}"
    by (auto simp: requires_rel_def get_dependencies_def get_def registry_ABC_def register_all_def
        register_def empty_registry_def example_processor_def split: if_splits)
  moreover have "acyclic ({} :: (string \<times> string) set)"
    by (simp add: acyclic_def)
  ultimately have ac: "acyclic (requires_rel registry_ABC [''A'', ''B'', ''C''])"
    by simp
  have b: "get_dependencies registry_ABC ''B'' = [''A'']"
    by code_simp
  from C1_topological_order [OF d ac] obtain order where
    o: "get_execution_order registry_ABC [''A'', ''B'', ''C''] = Inr order"
    and m: "mset order = mset [''A'', ''B'', ''C'']"
    and a: "\<forall>p\<in>set [''A'', ''B'', ''C'']. \<forall>d\<in>set (get_dependencies registry_ABC p).
               d \<in> set [''A'', ''B'', ''C''] \<longrightarrow> appears_after order p d"
    by blast
  from a b have "appears_after order ''B'' ''A''"
    by simp
  with d ac b o m show ?thesis
    by blast
qed




section \<open>Properties of the router\<close>

text \<open>
  C3. Router monotonicity: a step name that is in the job's completed steps (some history
  entry with that name has status \<^verbatim>\<open>completed\<close>) is never the answer of
  \<^verbatim>\<open>get_next_step\<close>, whatever the registry holds.
\<close>

theorem C3_router_monotonic:
  assumes "name \<in> set (get_completed_steps job)"
  shows "get_next_step reg job \<noteq> Inr (Some name)"
proof
  assume eq: "get_next_step reg job = Inr (Some name)"
  then obtain ordered where
    "find (is_next_step reg (get_completed_steps job)) ordered = Some name"
    by (auto simp: get_next_step_def Let_def split: if_splits sum.splits)
  then have "is_next_step reg (get_completed_steps job) name"
    by (auto simp: find_Some_iff)
  with assms show False
    by (simp add: is_next_step_def)
qed

theorem C3_router_monotonic_witness:
  "''A'' \<in> set (get_completed_steps job_A_done)
   \<and> get_next_step registry_ABC job_A_done \<noteq> Inr (Some ''A'')"
proof -
  have h: "''A'' \<in> set (get_completed_steps job_A_done)"
    by (simp add: job_A_done_def get_completed_steps_def add_step_result_def r_complete_def
        new_StepResult_def new_Job_def)
  from C3_router_monotonic [OF h] h show ?thesis
    by blast
qed

section \<open>Properties of the execution context\<close>

text \<open>
  C5 (as stated, refuted). The claim says that reverting a \<^verbatim>\<open>file_move\<close> whose original
  path is occupied aborts with a \<^verbatim>\<open>RevertConflict\<close> and never overwrites. The revert
  tests only that the destination exists and then calls \<^verbatim>\<open>os.rename(dest, source)\<close>. On
  POSIX, with \<^verbatim>\<open>a.txt\<close> moved to \<^verbatim>\<open>b.txt\<close> and a new \<^verbatim>\<open>a.txt\<close> written since,
  the revert returns normally and \<^verbatim>\<open>a.txt\<close> holds the moved text: the user's file is
  gone.
\<close>

theorem C5_move_back_overwrites_counterexample:
  "a_artifact_type example_move_artifact = FILE_MOVE
   \<and> a_before_state example_move_artifact = Some ''a.txt''
   \<and> w_fs (example_world Posix) ''a.txt'' = Some ''user data''
   \<and> (case revert_artifact example_move_artifact (example_world Posix) of
         Inl e \<Rightarrow> False
       | Inr w' \<Rightarrow> w_fs w' ''a.txt'' = Some ''moved'' \<and> w_fs w' ''b.txt'' = None)"
  by code_simp

text \<open>
  C5 (amended). When a \<^verbatim>\<open>file_move\<close> artifact is reverted and its destination exists,
  the move back is the platform's rename of the destination onto the original path, with
  no test of that path: on POSIX it returns normally and the original path then holds the
  moved file, whether or not it was occupied; on Windows an occupied original path makes
  the rename raise \<^verbatim>\<open>FileExistsError\<close>, and nothing is overwritten.
\<close>

theorem C5_move_back_is_platform_rename:
  assumes "a_artifact_type a = FILE_MOVE"
    and "a_before_state a = Some source" and "source \<noteq> []"
    and "a_after_state a = Some dest" and "dest \<noteq> []"
    and "w_fs w dest = Some content"
  shows "(w_platform w = Posix \<longrightarrow>
            (\<exists>w'. revert_artifact a w = Inr w' \<and> w_fs w' source = Some content))
       \<and> (w_platform w = Windows \<and> source \<in> dom (w_fs w) \<and> source \<noteq> dest \<longrightarrow>
            revert_artifact a w = Inl (FileExistsError source))"
  using assms
  by (auto simp: revert_artifact_def truthy_def path_str_def os_rename_def Let_def)

theorem C5_move_back_is_platform_rename_witness:
  "a_artifact_type example_move_artifact = FILE_MOVE
   \<and> w_fs (example_world Posix) ''b.txt'' = Some ''moved''
   \<and> w_platform (example_world Posix) = Posix
   \<and> (\<exists>w'. revert_artifact example_move_artifact (example_world Posix) = Inr w'
          \<and> w_fs w' ''a.txt'' = Some ''moved'')"
proof -
  have 1: "a_artifact_type example_move_artifact = FILE_MOVE"
    and 2: "a_before_state example_move_artifact = Some ''a.txt''"
    and 3: "a_after_state example_move_artifact = Some ''b.txt''"
    by (simp_all add: example_move_artifact_def a_mark_created_def new_Artifact_def)
  have 4: "w_fs (example_world Posix) ''b.txt'' = Some ''moved''"
    and 5: "w_platform (example_world Posix) = Posix"
    by (simp_all add: example_world_def)
  from C5_move_back_is_platform_rename [OF 1 2 _ 3 _ 4] 1 4 5 show ?thesis
    by simp
qed

subsection \<open>Atomicity of a step\<close>

lemma same_disk_refl [simp]: "same_disk w w"
  by (simp add: same_disk_def)


lemma same_disk_sym: "same_disk a b \<Longrightarrow> same_disk b a"
  by (simp add: same_disk_def)





lemma path_str_idem [simp]: "path_str (path_str p) = path_str p"
  by (simp add: path_str_def)

lemma path_str_nonempty [simp]: "path_str p \<noteq> []"
  by (simp add: path_str_def)
















section \<open>Properties of the executor\<close>

lemma can_run_step_reason:
  "\<not> fst (can_run_step reg job name) \<Longrightarrow> snd (can_run_step reg job name) \<noteq> []"
  by (auto simp: can_run_step_def Let_def split: option.splits if_splits)

text \<open>
  C9 (as stated, refuted). The claim is made for every step name. For a name with no
  registered processor \<^verbatim>\<open>can_run_step\<close> returns false, and \<^verbatim>\<open>execute_step\<close> does
  not return a skipped result: it raises \<^verbatim>\<open>ValueError\<close> at its first statement.
\<close>

theorem C9_unregistered_step_counterexample:
  "\<not> fst (can_run_step registry_ABC job_A_done ''Z'')
   \<and> (case execute_step 9 registry_ABC job_A_done ''Z'' (example_world Posix) of
         Inl e \<Rightarrow> e = ValueError (''Processor '' @ [CHR 0x27] @ ''Z'' @ [CHR 0x27] @ '' not found'')
       | Inr returned \<Rightarrow> False)"
  by code_simp

text \<open>
  C9 (amended). When \<^verbatim>\<open>can_run_step(job, name)\<close> returns false: if no processor is
  registered under \<open>name\<close>, \<^verbatim>\<open>execute_step\<close> raises; otherwise it returns a step result
  with status \<^verbatim>\<open>skipped\<close> whose \<^verbatim>\<open>output_data["skip_reason"]\<close> is the reason, the job
  is the job it was given (status, current step, history and data bag included), and
  neither store nor the file system has changed.
\<close>

theorem C9_skipped_step_leaves_job:
  assumes "\<not> fst (can_run_step reg job name)"
  shows "case get reg name of
           None \<Rightarrow> (\<exists>e. execute_step now reg job name w = Inl e)
         | Some processor \<Rightarrow>
             (\<exists>result w'. execute_step now reg job name w = Inr (result, job, w')
                \<and> r_status result = STEP_SKIPPED
                \<and> map_of (r_output_data result) ''skip_reason'' = Some (snd (can_run_step reg job name))
                \<and> w_jobs w' = w_jobs w \<and> w_artifacts w' = w_artifacts w \<and> w_fs w' = w_fs w)"
proof (cases "get reg name")
  case None
  then show ?thesis by (simp add: execute_step_def)
next
  case (Some processor)
  obtain can_run reason where c: "can_run_step reg job name = (can_run, reason)"
    by (cases "can_run_step reg job name")
  with assms have f: "\<not> can_run" by simp
  from can_run_step_reason [OF assms] c have r: "reason \<noteq> []" by simp
  show ?thesis
    using Some c f r
    by (simp add: execute_step_def uuid4_def r_skip_def new_StepResult_def)
qed

theorem C9_skipped_step_leaves_job_witness:
  "\<not> fst (can_run_step registry_ABC job_A_done ''A'')
   \<and> (\<exists>result w'. execute_step 9 registry_ABC job_A_done ''A'' (example_world Posix)
                      = Inr (result, job_A_done, w')
         \<and> r_status result = STEP_SKIPPED
         \<and> w_jobs w' = w_jobs (example_world Posix))"
proof -
  have h: "\<not> fst (can_run_step registry_ABC job_A_done ''A'')"
    by code_simp
  have g: "get registry_ABC ''A'' = Some (example_processor ''A'' [])"
    by (simp add: registry_ABC_def register_all_def register_def empty_registry_def
        example_processor_def get_def)
  from C9_skipped_step_leaves_job [OF h, of 9 "example_world Posix"] h g show ?thesis
    by auto
qed

subsection \<open>Reverting a step\<close>









section \<open>Properties of the watch configuration\<close>

text \<open>
  C7 (as stated, refuted in its second part). \<^verbatim>\<open>matches_file\<close> looks at the name and
  the path only. With the default patterns it returns true for \<^verbatim>\<open>/w/docs\<close>, also
  when \<^verbatim>\<open>/w/docs\<close> is a directory; it is the watch loop that turns the directory away.
\<close>

theorem C7_directory_matches_counterexample:
  "matches_file glob_match example_watch docs_path
   \<and> \<not> watch_accepts glob_match (\<lambda>p. p = docs_path) example_watch docs_path"
  by code_simp

text \<open>
  C7 (amended). For every path \<open>p\<close>, every watch configuration and every matcher,
  \<^verbatim>\<open>matches_file(p)\<close> is true iff no ignore pattern matches \<open>p\<close> (neither its bare
  filename nor its full path) and some positive pattern matches the filename of \<open>p\<close>.
  Directories are excluded by the callers, not by \<^verbatim>\<open>matches_file\<close>: the watch loop
  rejects a path that is a directory and \<^verbatim>\<open>scan_existing\<close> a path that is not a file,
  before \<^verbatim>\<open>matches_file\<close> is asked.
\<close>

theorem C7_matches_file_iff:
  "(matches_file fnmatch cfg p \<longleftrightarrow>
      (\<forall>pattern\<in>set (wc_ignore_patterns cfg).
          \<not> fnmatch (path_name p) pattern \<and> \<not> fnmatch (str_of_path p) pattern)
      \<and> (\<exists>pattern\<in>set (wc_patterns cfg). fnmatch (path_name p) pattern))
   \<and> (is_dir p \<longrightarrow> \<not> watch_accepts fnmatch is_dir cfg p)
   \<and> (\<not> is_file p \<longrightarrow> \<not> scan_accepts fnmatch is_file cfg p)"
  by (auto simp: matches_file_def watch_accepts_def scan_accepts_def Let_def list_ex_iff)

theorem C7_matches_file_iff_witness:
  "matches_file glob_match example_watch docs_path
   \<and> \<not> list_ex (\<lambda>pattern. glob_match (path_name docs_path) pattern
                       \<or> glob_match (str_of_path docs_path) pattern)
           (wc_ignore_patterns example_watch)
   \<and> list_ex (\<lambda>pattern. glob_match (path_name docs_path) pattern) (wc_patterns example_watch)"
proof -
  have m: "matches_file glob_match example_watch docs_path"
    by code_simp
  note c = C7_matches_file_iff [where fnmatch = glob_match and cfg = example_watch
      and p = docs_path, THEN conjunct1, THEN iffD1, OF m]
  from m c show ?thesis
    by (simp add: list_ex_iff)
qed

end
